theory Spec2Isabelle
  imports Complex_Main "HOL-Library.Word" "HOL-Library.Log_Nat"
begin

section \<open>Data model\<close>

text \<open>
  The program works on numpy arrays of unsigned bytes. A colour image has shape
  (rows, cols, 3); a mask has shape (rows, cols). An array is modelled by its first two
  shape entries and its elements in row-major order; an element of a colour image is the
  triple of its three channel bytes (channel 0, channel 1, channel 2).
\<close>

type_synonym u8 = "8 word"

type_synonym pixel = "u8 \<times> u8 \<times> u8"

record 'a ndarray =
  shape0 :: nat
  shape1 :: nat
  elems :: "'a list"

text \<open>
  A raised exception is known by its message and by its class. \<open>Exception m\<close> is an
  exception whose class derives from \<open>Exception\<close>; \<open>BaseException m\<close> is one whose class
  derives from \<open>BaseException\<close> only, such as \<open>KeyboardInterrupt\<close>, \<open>SystemExit\<close> and
  the stop and rerun signals of Streamlit. \<open>except Exception\<close> catches the first kind
  and lets the second pass. A fallible call returns \<open>Inl\<close> of the exception it raises.
\<close>

datatype exn = Exception string | BaseException string

fun exn_text :: "exn \<Rightarrow> string" where
  "exn_text (Exception m) = m"
| "exn_text (BaseException m) = m"

fun except_Exception :: "exn \<Rightarrow> bool" where
  "except_Exception (Exception m) = True"
| "except_Exception (BaseException m) = False"

text \<open>
  What the Streamlit page receives, in the order of the calls. Layout calls (title,
  markdown, columns, headers, captions, expanders) show fixed text and are left out, and so
  is the emoji that starts some messages. A metric is kept as the number it formats:
  \<open>St_metric_count\<close> holds \<open>int(pixel_count)\<close>, \<open>St_metric_percentage\<close> holds
  \<open>percentage\<close> and \<open>total_pixels\<close>. \<open>St_info_range\<close> is the closing note that
  repeats the six slider values.
\<close>

datatype st_event =
    St_error string
  | St_info string
  | St_success string
  | St_image_color "pixel ndarray"
  | St_image_mask "u8 ndarray"
  | St_metric_count int
  | St_metric_percentage "rat option" nat
  | St_info_range int int int int int int

text \<open>
  A Streamlit call that shows an element either adds it to the page and returns, or
  raises and adds nothing: Streamlit can raise its stop and rerun signals from any call.
  Which of the two happens, given the page so far and the element, is the parameter
  \<open>st_raises\<close>. \<open>st_calls\<close> makes the calls of a list in order and stops at the first
  one that raises.
\<close>

definition st_call ::
  "(st_event list \<Rightarrow> st_event \<Rightarrow> exn option) \<Rightarrow> st_event \<Rightarrow> st_event list
     \<Rightarrow> (exn + unit) \<times> st_event list" where
  "st_call st_raises ev st =
     (case st_raises st ev of
        Some e \<Rightarrow> (Inl e, st)
      | None \<Rightarrow> (Inr (), st @ [ev]))"

fun st_calls ::
  "(st_event list \<Rightarrow> st_event \<Rightarrow> exn option) \<Rightarrow> st_event list \<Rightarrow> st_event list
     \<Rightarrow> (exn + unit) \<times> st_event list" where
  "st_calls st_raises [] st = (Inr (), st)"
| "st_calls st_raises (ev # evs) st =
     (case st_call st_raises ev st of
        (Inl e, st') \<Rightarrow> (Inl e, st')
      | (Inr u, st') \<Rightarrow> st_calls st_raises evs st')"

section \<open>Double-precision arithmetic\<close>

text \<open>
  Python floats and numpy's float64 are IEEE-754 binary64 numbers, and every operation
  rounds its exact result to the nearest representable number, ties to the even
  significand. A finite double is modelled by the rational it denotes. \<open>float64 x\<close> is
  the double nearest to \<open>x\<close>: the significand has 53 bits. The exponent range is not
  bounded; every number this program computes from an image with fewer than \<open>2 ^ 31\<close>
  rows and columns lies well inside the normal range of binary64.
\<close>

definition ilog2 :: "rat \<Rightarrow> int" where
  "ilog2 x = (if 1 \<le> x then int (floorlog 2 (nat \<lfloor>x\<rfloor>)) - 1
              else - int (floorlog 2 (nat (\<lceil>1 / x\<rceil> - 1))))"

definition round_half_even :: "rat \<Rightarrow> int" where
  "round_half_even x =
     (let f = \<lfloor>x\<rfloor>; d = x - of_int f
      in if d < 1 / 2 then f
         else if 1 / 2 < d then f + 1
         else if even f then f else f + 1)"

definition float64 :: "rat \<Rightarrow> rat" where
  "float64 x =
     (if x = 0 then 0
      else let e = ilog2 \<bar>x\<bar> - 52
           in of_int (round_half_even (x / 2 powi e)) * 2 powi e)"

text \<open>Python's \<open>a / b\<close> on two ints: the correctly rounded quotient, or ZeroDivisionError.\<close>

definition py_truediv :: "int \<Rightarrow> int \<Rightarrow> exn + rat" where
  "py_truediv a b =
     (if b = 0 then Inl (Exception ''division by zero'')
      else Inr (float64 (of_int a / of_int b)))"

text \<open>Python's \<open>n * x\<close> on an int and a float: the int is converted to a double first.\<close>

definition py_int_mul_float :: "int \<Rightarrow> rat \<Rightarrow> rat" where
  "py_int_mul_float n x = float64 (float64 (of_int n) * x)"

text \<open>Python's \<open>int(x)\<close> on a float truncates towards zero.\<close>

definition py_int :: "rat \<Rightarrow> int" where
  "py_int x = (if 0 \<le> x then \<lfloor>x\<rfloor> else \<lceil>x\<rceil>)"

section \<open>The OpenCV and numpy operations the program calls\<close>

text \<open>
  \<open>cv2.cvtColor\<close> converts pixel by pixel and keeps the shape. The per-pixel function of
  \<open>COLOR_BGR2HSV\<close> is a parameter of the model; \<open>COLOR_BGR2RGB\<close> swaps channels 0 and 2.
  OpenCV rejects an array without pixels; \<open>cv2.imdecode\<close> returns \<open>None\<close> rather than
  such an array, so the program never passes one.
\<close>

definition cv2_cvtColor :: "(pixel \<Rightarrow> pixel) \<Rightarrow> pixel ndarray \<Rightarrow> pixel ndarray" where
  "cv2_cvtColor code src =
     \<lparr>shape0 = shape0 src, shape1 = shape1 src, elems = map code (elems src)\<rparr>"

fun COLOR_BGR2RGB :: "pixel \<Rightarrow> pixel" where
  "COLOR_BGR2RGB (b, g, r) = (r, g, b)"

text \<open>
  \<open>cv2.inRange\<close> with per-channel integer bounds: an element of the result is 255 when
  every channel lies between its bounds, both included, and 0 otherwise.
\<close>

fun in_bounds :: "int \<times> int \<times> int \<Rightarrow> int \<times> int \<times> int \<Rightarrow> pixel \<Rightarrow> bool" where
  "in_bounds (l0, l1, l2) (u0, u1, u2) (c0, c1, c2) =
     (l0 \<le> uint c0 \<and> uint c0 \<le> u0 \<and>
      l1 \<le> uint c1 \<and> uint c1 \<le> u1 \<and>
      l2 \<le> uint c2 \<and> uint c2 \<le> u2)"

definition cv2_inRange ::
  "pixel ndarray \<Rightarrow> int \<times> int \<times> int \<Rightarrow> int \<times> int \<times> int \<Rightarrow> u8 ndarray" where
  "cv2_inRange src lowerb upperb =
     \<lparr>shape0 = shape0 src, shape1 = shape1 src,
      elems = map (\<lambda>p. if in_bounds lowerb upperb p then 255 else 0) (elems src)\<rparr>"

text \<open>
  \<open>cv2.bitwise_and(src1, src2, mask=mask)\<close> without a destination: a new array, zero
  where the mask is zero and the bitwise conjunction of the two sources elsewhere. The
  three arrays have the same shape at the only call of the program.
\<close>

unbundle bit_operations_syntax

fun and_pixel :: "pixel \<Rightarrow> pixel \<Rightarrow> pixel" where
  "and_pixel (a0, a1, a2) (b0, b1, b2) = (a0 AND b0, a1 AND b1, a2 AND b2)"

definition cv2_bitwise_and ::
  "pixel ndarray \<Rightarrow> pixel ndarray \<Rightarrow> u8 ndarray \<Rightarrow> pixel ndarray" where
  "cv2_bitwise_and src1 src2 msk =
     \<lparr>shape0 = shape0 src1, shape1 = shape1 src1,
      elems = map (\<lambda>(p, q, m). if m \<noteq> 0 then and_pixel p q else (0, 0, 0))
                (zip (elems src1) (zip (elems src2) (elems msk)))\<rparr>"

text \<open>\<open>mask > 0\<close> is the array of truth values; \<open>np.sum\<close> of it counts the true ones.\<close>

definition np_greater :: "u8 ndarray \<Rightarrow> u8 \<Rightarrow> bool ndarray" where
  "np_greater a c = \<lparr>shape0 = shape0 a, shape1 = shape1 a, elems = map (\<lambda>x. c < x) (elems a)\<rparr>"

definition np_sum :: "bool ndarray \<Rightarrow> int" where
  "np_sum a = int (length (filter (\<lambda>b. b) (elems a)))"

text \<open>
  An integer of numpy divided by a non-zero Python int: both are converted to float64 and
  the quotient is rounded.
\<close>

definition np_truediv :: "int \<Rightarrow> int \<Rightarrow> rat" where
  "np_truediv a b = float64 (float64 (of_int a) / float64 (of_int b))"

text \<open>
  A float64 of numpy divided by a Python int. Division by zero raises nothing in numpy: it
  warns and gives \<open>nan\<close> or an infinity, which is \<open>None\<close> here.
\<close>

definition np_float_div_int :: "rat \<Rightarrow> int \<Rightarrow> rat option" where
  "np_float_div_int x n =
     (if n = 0 then None else Some (float64 (x / float64 (of_int n))))"

definition np_float_mul_int :: "rat option \<Rightarrow> int \<Rightarrow> rat option" where
  "np_float_mul_int x n = map_option (\<lambda>v. float64 (v * float64 (of_int n))) x"

text \<open>
  \<open>cv2.resize(src, dsize, interpolation=cv2.INTER_AREA)\<close> with \<open>dsize = (width, height)\<close>:
  OpenCV raises when a requested dimension is not positive; otherwise the result has
  \<open>height\<close> rows and \<open>width\<close> columns. The resampled contents are a parameter.
\<close>

definition cv2_resize ::
  "(pixel ndarray \<Rightarrow> nat \<Rightarrow> nat \<Rightarrow> pixel list) \<Rightarrow> pixel ndarray \<Rightarrow> int \<times> int
     \<Rightarrow> exn + pixel ndarray" where
  "cv2_resize INTER_AREA src dsize =
     (case dsize of (w, h) \<Rightarrow>
        if w \<le> 0 \<or> h \<le> 0 then Inl (Exception ''cv2.error: resize'')
        else Inr \<lparr>shape0 = nat h, shape1 = nat w,
                  elems = INTER_AREA src (nat w) (nat h)\<rparr>)"

text \<open>
  The 8-bit \<open>COLOR_BGR2HSV\<close> conversion of OpenCV, in its fixed-point form with 12
  fractional bits: V is the largest channel, S is \<open>255 * (V - min) / V\<close> and H is half the
  hue angle in degrees, both rounded. The two tables hold the integers nearest to
  \<open>255 * 4096 / i\<close> and \<open>180 * 4096 / (6 * i)\<close>. The conversion instantiates the
  parameter of \<open>segment_hsv\<close> in the concrete examples below.
\<close>

definition sdiv_table :: "int \<Rightarrow> int" where
  "sdiv_table i = (if i = 0 then 0 else round_half_even (1044480 / of_int i))"

definition hdiv_table180 :: "int \<Rightarrow> int" where
  "hdiv_table180 i = (if i = 0 then 0 else round_half_even (737280 / (6 * of_int i)))"

definition cv_COLOR_BGR2HSV :: "pixel \<Rightarrow> pixel" where
  "cv_COLOR_BGR2HSV src =
     (let b = uint (fst src); g = uint (fst (snd src)); r = uint (snd (snd src));
          v = max b (max g r);
          vmin = min b (min g r);
          diff = v - vmin;
          s = (diff * sdiv_table v + 2048) div 4096;
          h0 = (if v = r then g - b
                else if v = g then b - r + 2 * diff
                else r - g + 4 * diff);
          h1 = (h0 * hdiv_table180 diff + 2048) div 4096;
          h = (if h1 < 0 then h1 + 180 else h1)
      in (word_of_int (min 255 (max 0 h)), word_of_int s, word_of_int v))"

section \<open>segment_hsv\<close>

definition segment_hsv ::
  "(pixel \<Rightarrow> pixel) \<Rightarrow> pixel ndarray \<Rightarrow> int \<Rightarrow> int \<Rightarrow> int \<Rightarrow> int \<Rightarrow> int \<Rightarrow> int
     \<Rightarrow> u8 ndarray \<times> pixel ndarray \<times> rat" where
  "segment_hsv COLOR_BGR2HSV img_bgr h_min h_max s_min s_max v_min v_max =
     (let img_hsv = cv2_cvtColor COLOR_BGR2HSV img_bgr;
          lower_bound = (h_min, s_min, v_min);
          upper_bound = (h_max, s_max, v_max);
          mask = cv2_inRange img_hsv lower_bound upper_bound;
          result = cv2_bitwise_and img_bgr img_bgr mask;
          pixel_count = np_truediv (np_sum (np_greater mask 0)) 255
      in (mask, result, pixel_count))"

section \<open>load_color_image\<close>

text \<open>
  The uploaded file's \<open>read\<close>, \<open>cv2.imdecode\<close> and the resampling kernel are
  parameters. \<open>read\<close> and \<open>imdecode\<close> may raise; \<open>imdecode\<close> returns \<open>None\<close>
  for bytes it cannot decode. The page is threaded through. \<open>load_color_image_try\<close> is
  the body of the \<open>try\<close> block. \<open>load_color_image\<close> is the function with its handler:
  \<open>except Exception\<close> takes an exception of the try block when its class derives from
  \<open>Exception\<close> and lets any other one pass to the caller, and an exception raised by
  \<open>st.error\<close> inside the handler passes to the caller as well.
\<close>

definition load_color_image_try ::
  "(st_event list \<Rightarrow> st_event \<Rightarrow> exn option)
     \<Rightarrow> ('f \<Rightarrow> exn + u8 list) \<Rightarrow> (u8 list \<Rightarrow> exn + pixel ndarray option)
     \<Rightarrow> (pixel ndarray \<Rightarrow> nat \<Rightarrow> nat \<Rightarrow> pixel list)
     \<Rightarrow> 'f \<Rightarrow> st_event list \<Rightarrow> (exn + pixel ndarray option) \<times> st_event list" where
  "load_color_image_try st_raises read cv2_imdecode INTER_AREA uploaded_file st =
     (case read uploaded_file of
        Inl e \<Rightarrow> (Inl e, st)
      | Inr file_bytes \<Rightarrow>
          (case cv2_imdecode file_bytes of
             Inl e \<Rightarrow> (Inl e, st)
           | Inr None \<Rightarrow>
               (case st_call st_raises
                       (St_error ''Gagal memuat citra. Pastikan format file didukung atau citra tidak rusak.'')
                       st of
                  (Inl e, st') \<Rightarrow> (Inl e, st')
                | (Inr u, st') \<Rightarrow> (Inr None, st'))
           | Inr (Some img_color) \<Rightarrow>
               (let rows = int (shape0 img_color); cols = int (shape1 img_color)
                in if rows > 800 \<or> cols > 800 then
                     (case py_truediv 800 (max rows cols) of
                        Inl e \<Rightarrow> (Inl e, st)
                      | Inr scale \<Rightarrow>
                          (let new_size = (py_int (py_int_mul_float cols scale),
                                           py_int (py_int_mul_float rows scale))
                           in case cv2_resize INTER_AREA img_color new_size of
                                Inl e \<Rightarrow> (Inl e, st)
                              | Inr img_resized \<Rightarrow> (Inr (Some img_resized), st)))
                   else (Inr (Some img_color), st))))"

definition load_color_image ::
  "(st_event list \<Rightarrow> st_event \<Rightarrow> exn option)
     \<Rightarrow> ('f \<Rightarrow> exn + u8 list) \<Rightarrow> (u8 list \<Rightarrow> exn + pixel ndarray option)
     \<Rightarrow> (pixel ndarray \<Rightarrow> nat \<Rightarrow> nat \<Rightarrow> pixel list)
     \<Rightarrow> 'f option \<Rightarrow> st_event list \<Rightarrow> (exn + pixel ndarray option) \<times> st_event list" where
  "load_color_image st_raises read cv2_imdecode INTER_AREA uploaded_file st =
     (case uploaded_file of
        None \<Rightarrow> (Inr None, st)
      | Some f \<Rightarrow>
          (case load_color_image_try st_raises read cv2_imdecode INTER_AREA f st of
             (Inl e, st') \<Rightarrow>
               if except_Exception e then
                 (case st_call st_raises
                         (St_error (''Terjadi kesalahan saat memproses citra: '' @ exn_text e))
                         st' of
                    (Inl e', st'') \<Rightarrow> (Inl e', st'')
                  | (Inr u, st'') \<Rightarrow> (Inr None, st''))
               else (Inl e, st')
           | (Inr r, st') \<Rightarrow> (Inr r, st')))"

section \<open>main_app\<close>

text \<open>
  The uploader's file and the six slider values are inputs. The function returns when no
  file is uploaded or when the loader gives \<open>None\<close>; otherwise it segments the image and
  shows the images and the two metrics. An exception of the loader or of a Streamlit call
  is not caught here.
\<close>

definition main_app ::
  "(st_event list \<Rightarrow> st_event \<Rightarrow> exn option)
     \<Rightarrow> ('f \<Rightarrow> exn + u8 list) \<Rightarrow> (u8 list \<Rightarrow> exn + pixel ndarray option)
     \<Rightarrow> (pixel ndarray \<Rightarrow> nat \<Rightarrow> nat \<Rightarrow> pixel list) \<Rightarrow> (pixel \<Rightarrow> pixel)
     \<Rightarrow> 'f option \<Rightarrow> int \<times> int \<times> int \<times> int \<times> int \<times> int
     \<Rightarrow> st_event list \<Rightarrow> (exn + unit) \<times> st_event list" where
  "main_app st_raises read cv2_imdecode INTER_AREA COLOR_BGR2HSV uploaded_file sliders st =
     (case uploaded_file of
        None \<Rightarrow>
          st_call st_raises
            (St_info ''Silakan unggah citra satelit Anda untuk memulai analisis.'') st
      | Some f \<Rightarrow>
          (case load_color_image st_raises read cv2_imdecode INTER_AREA uploaded_file st of
             (Inl e, st1) \<Rightarrow> (Inl e, st1)
           | (Inr None, st1) \<Rightarrow> (Inr (), st1)
           | (Inr (Some img_bgr), st1) \<Rightarrow>
               (case sliders of (h_min, h_max, s_min, s_max, v_min, v_max) \<Rightarrow>
                  (case segment_hsv COLOR_BGR2HSV img_bgr h_min h_max s_min s_max v_min v_max of
                     (msk, result_bgr, pixel_count) \<Rightarrow>
                       (let img_rgb = cv2_cvtColor COLOR_BGR2RGB img_bgr;
                            result_rgb = cv2_cvtColor COLOR_BGR2RGB result_bgr;
                            total_pixels = shape0 img_bgr * shape1 img_bgr;
                            percentage =
                              np_float_mul_int
                                (np_float_div_int pixel_count (int total_pixels)) 100
                        in st_calls st_raises
                             [St_success ''Citra berhasil dimuat. Lanjutkan ke langkah 2 untuk mengontrol segmentasi.'',
                              St_image_color img_rgb,
                              St_image_color result_rgb,
                              St_metric_count (py_int pixel_count),
                              St_metric_percentage percentage total_pixels,
                              St_image_mask msk,
                              St_info_range h_min h_max s_min s_max v_min v_max]
                             st1)))))"

section \<open>Arrays as objects\<close>

text \<open>
  numpy arrays are mutable objects passed by reference. To speak about two calls in a row,
  the arrays live in a heap, a list indexed by address; \<open>cv2.cvtColor\<close>, \<open>cv2.inRange\<close>
  and \<open>cv2.bitwise_and\<close> called without a destination allocate their result and write
  to no other array.
\<close>

datatype array = Color_array "pixel ndarray" | Mask_array "u8 ndarray"

type_synonym heap = "array list"

definition alloc :: "heap \<Rightarrow> array \<Rightarrow> heap \<times> nat" where
  "alloc h x = (h @ [x], length h)"

definition get_color :: "heap \<Rightarrow> nat \<Rightarrow> pixel ndarray option" where
  "get_color h a =
     (if a < length h then (case h ! a of Color_array x \<Rightarrow> Some x | Mask_array _ \<Rightarrow> None)
      else None)"

definition get_mask :: "heap \<Rightarrow> nat \<Rightarrow> u8 ndarray option" where
  "get_mask h a =
     (if a < length h then (case h ! a of Mask_array x \<Rightarrow> Some x | Color_array _ \<Rightarrow> None)
      else None)"

definition heap_cvtColor :: "(pixel \<Rightarrow> pixel) \<Rightarrow> heap \<Rightarrow> nat \<Rightarrow> (heap \<times> nat) option" where
  "heap_cvtColor code h src =
     (case get_color h src of
        None \<Rightarrow> None
      | Some x \<Rightarrow> Some (alloc h (Color_array (cv2_cvtColor code x))))"

definition heap_inRange ::
  "heap \<Rightarrow> nat \<Rightarrow> int \<times> int \<times> int \<Rightarrow> int \<times> int \<times> int \<Rightarrow> (heap \<times> nat) option" where
  "heap_inRange h src lowerb upperb =
     (case get_color h src of
        None \<Rightarrow> None
      | Some x \<Rightarrow> Some (alloc h (Mask_array (cv2_inRange x lowerb upperb))))"

definition heap_bitwise_and :: "heap \<Rightarrow> nat \<Rightarrow> nat \<Rightarrow> nat \<Rightarrow> (heap \<times> nat) option" where
  "heap_bitwise_and h src1 src2 msk =
     (case (get_color h src1, get_color h src2, get_mask h msk) of
        (Some x, Some y, Some m) \<Rightarrow> Some (alloc h (Color_array (cv2_bitwise_and x y m)))
      | _ \<Rightarrow> None)"

definition heap_count_positive :: "heap \<Rightarrow> nat \<Rightarrow> int option" where
  "heap_count_positive h msk = map_option (\<lambda>m. np_sum (np_greater m 0)) (get_mask h msk)"

text \<open>\<open>segment_hsv\<close> on addresses: the same five statements, each on the heap.\<close>

definition segment_hsv_heap ::
  "(pixel \<Rightarrow> pixel) \<Rightarrow> heap \<Rightarrow> nat \<Rightarrow> int \<Rightarrow> int \<Rightarrow> int \<Rightarrow> int \<Rightarrow> int \<Rightarrow> int
     \<Rightarrow> (heap \<times> nat \<times> nat \<times> rat) option" where
  "segment_hsv_heap COLOR_BGR2HSV h img_bgr h_min h_max s_min s_max v_min v_max =
     (case heap_cvtColor COLOR_BGR2HSV h img_bgr of
        None \<Rightarrow> None
      | Some (h1, img_hsv) \<Rightarrow>
          (case heap_inRange h1 img_hsv (h_min, s_min, v_min) (h_max, s_max, v_max) of
             None \<Rightarrow> None
           | Some (h2, msk) \<Rightarrow>
               (case heap_bitwise_and h2 img_bgr img_bgr msk of
                  None \<Rightarrow> None
                | Some (h3, result) \<Rightarrow>
                    (case heap_count_positive h3 msk of
                       None \<Rightarrow> None
                     | Some n \<Rightarrow> Some (h3, msk, result, np_truediv n 255)))))"

section \<open>Example inputs\<close>

text \<open>
  A single green pixel; a green and a red pixel; and a 2 by 2 image whose pixels OpenCV
  converts to the HSV triples (60, 200, 200), (10, 200, 200), (60, 10, 200) and
  (60, 204, 10).
\<close>

definition green_pixel_image :: "pixel ndarray" where
  "green_pixel_image = \<lparr>shape0 = 1, shape1 = 1, elems = [(0, 255, 0)]\<rparr>"

definition green_red_image :: "pixel ndarray" where
  "green_red_image = \<lparr>shape0 = 1, shape1 = 2, elems = [(0, 255, 0), (0, 0, 255)]\<rparr>"

definition four_pixel_image :: "pixel ndarray" where
  "four_pixel_image =
     \<lparr>shape0 = 2, shape1 = 2,
      elems = [(43, 200, 43), (43, 95, 200), (192, 200, 192), (2, 10, 2)]\<rparr>"

text \<open>
  Stand-ins for the parameters: a Streamlit whose calls all return and one whose calls
  all raise the rerun signal; a file object whose \<open>read\<close> gives its bytes, raises an
  \<open>OSError\<close> or is interrupted from the keyboard; decoders that give one fixed image,
  \<open>None\<close> or an exception for every buffer; and a resampling kernel that paints every
  pixel black.
\<close>

definition st_returns :: "st_event list \<Rightarrow> st_event \<Rightarrow> exn option" where
  "st_returns st ev = None"


definition read_bytes :: "u8 list \<Rightarrow> exn + u8 list" where
  "read_bytes f = Inr f"



definition decode_as :: "pixel ndarray \<Rightarrow> u8 list \<Rightarrow> exn + pixel ndarray option" where
  "decode_as img file_bytes = Inr (Some img)"

definition decode_none :: "u8 list \<Rightarrow> exn + pixel ndarray option" where
  "decode_none file_bytes = Inr None"

definition decode_raises :: "u8 list \<Rightarrow> exn + pixel ndarray option" where
  "decode_raises file_bytes = Inl (Exception ''cv2.error: imdecode'')"

definition black_area :: "pixel ndarray \<Rightarrow> nat \<Rightarrow> nat \<Rightarrow> pixel list" where
  "black_area src w h = replicate (w * h) (0, 0, 0)"

text \<open>
  Three black images larger than the bound: 2 rows of 801 pixels, 801 rows of 1 pixel, and
  a square of 1078 rows and columns.
\<close>

definition wide_image :: "pixel ndarray" where
  "wide_image = \<lparr>shape0 = 2, shape1 = 801, elems = replicate (2 * 801) (0, 0, 0)\<rparr>"

definition thin_image :: "pixel ndarray" where
  "thin_image = \<lparr>shape0 = 801, shape1 = 1, elems = replicate 801 (0, 0, 0)\<rparr>"

definition square_image :: "pixel ndarray" where
  "square_image =
     \<lparr>shape0 = 1078, shape1 = 1078, elems = replicate (1078 * 1078) (0, 0, 0)\<rparr>"

section \<open>Rounding to double precision\<close>

lemma floorlog_pos: "0 < n \<Longrightarrow> 0 < floorlog 2 n"
  by (simp add: floorlog_def)

lemma rat_pow2_le: "(a::nat) \<le> b \<Longrightarrow> (of_nat a :: rat) \<le> of_nat b"
  by simp

lemma floorlog_rat_bounds:
  assumes "0 < n"
  shows "(2::rat) ^ (floorlog 2 n - 1) \<le> of_nat n" and "(of_nat n :: rat) + 1 \<le> 2 ^ floorlog 2 n"
proof -
  have b: "2 ^ (floorlog 2 n - 1) \<le> n" "n + 1 \<le> 2 ^ floorlog 2 n"
    using floorlog_bounds [of n 2] assms by simp_all
  have "(of_nat (2 ^ (floorlog 2 n - 1)) :: rat) \<le> of_nat n"
    using b(1) by (rule rat_pow2_le)
  then show "(2::rat) ^ (floorlog 2 n - 1) \<le> of_nat n" by simp
  have "(of_nat (n + 1) :: rat) \<le> of_nat (2 ^ floorlog 2 n)"
    using b(2) by (rule rat_pow2_le)
  then show "(of_nat n :: rat) + 1 \<le> 2 ^ floorlog 2 n" by simp
qed

lemma ilog2_ge1:
  assumes "1 \<le> x"
  shows "2 powi (ilog2 x) \<le> x" and "x < 2 powi (ilog2 x + 1)"
proof -
  define n where "n = nat \<lfloor>x\<rfloor>"
  define k where "k = floorlog 2 n"
  have n: "0 < n" using assms by (simp add: n_def)
  have k: "0 < k" using n by (simp add: k_def floorlog_pos)
  have il: "ilog2 x = int (k - 1)" using assms k by (simp add: ilog2_def n_def k_def)
  have il1: "ilog2 x + 1 = int k" using il k by simp
  have "0 \<le> \<lfloor>x\<rfloor>" using assms by simp
  then have nn: "(of_nat n :: rat) = of_int \<lfloor>x\<rfloor>"
    unfolding n_def by (metis of_int_of_nat_eq int_nat_eq)
  have nx: "of_nat n \<le> x" "x < of_nat n + 1"
    unfolding nn by linarith+
  have "(2::rat) ^ (k - 1) \<le> x"
    using floorlog_rat_bounds(1) [OF n] nx(1) unfolding k_def by (rule order_trans)
  then show "2 powi (ilog2 x) \<le> x" unfolding il by (simp only: power_int_of_nat)
  have "x < 2 ^ k"
    using nx(2) floorlog_rat_bounds(2) [OF n] unfolding k_def by (rule less_le_trans)
  then show "x < 2 powi (ilog2 x + 1)" unfolding il1 by (simp only: power_int_of_nat)
qed

lemma ilog2_lt1:
  assumes "0 < x" "x < 1"
  shows "2 powi (ilog2 x) \<le> x" and "x < 2 powi (ilog2 x + 1)"
proof -
  define n where "n = nat (\<lceil>1 / x\<rceil> - 1)"
  define k where "k = floorlog 2 n"
  have inv: "1 < 1 / x" using assms by simp
  then have c: "2 \<le> \<lceil>1 / x\<rceil>" by linarith
  have n: "0 < n" unfolding n_def using c by linarith
  have k: "0 < k" using n by (simp add: k_def floorlog_pos)
  have il: "ilog2 x = - int k" using assms by (simp add: ilog2_def n_def k_def)
  have il1: "ilog2 x + 1 = - int (k - 1)" using il k by simp
  have "0 \<le> \<lceil>1 / x\<rceil> - 1" using c by linarith
  then have "(of_nat n :: rat) = of_int (\<lceil>1 / x\<rceil> - 1)"
    unfolding n_def by (metis of_int_of_nat_eq int_nat_eq)
  then have nn: "of_nat n = of_int \<lceil>1 / x\<rceil> - (1::rat)" by simp
  have nx: "of_nat n < 1 / x" "1 / x \<le> of_nat n + 1"
    unfolding nn by linarith+
  have "1 / x \<le> 2 ^ k"
    using nx(2) floorlog_rat_bounds(2) [OF n] unfolding k_def by (rule order_trans)
  then have "1 \<le> 2 ^ k * x" using assms(1) by (simp add: field_simps)
  then have "1 / 2 ^ k \<le> x" by (simp add: field_simps)
  then show "2 powi (ilog2 x) \<le> x" unfolding il by (simp add: power_int_minus_divide)
  have "2 ^ (k - 1) < 1 / x"
    using floorlog_rat_bounds(1) [OF n] nx(1) unfolding k_def by (rule le_less_trans)
  then have "2 ^ (k - 1) * x < 1" using assms(1) by (simp add: field_simps)
  then have "x < 1 / 2 ^ (k - 1)" by (simp add: field_simps)
  then show "x < 2 powi (ilog2 x + 1)" unfolding il1 by (simp add: power_int_minus_divide)
qed

lemma ilog2_bounds:
  assumes "0 < x"
  shows "2 powi (ilog2 x) \<le> x" and "x < 2 powi (ilog2 x + 1)"
  using ilog2_ge1 [of x] ilog2_lt1 [of x] assms by (cases "1 \<le> x"; simp)+



lemma round_half_even_cases:
  "round_half_even y = \<lfloor>y\<rfloor> \<and> y - of_int \<lfloor>y\<rfloor> \<le> 1 / 2
   \<or> round_half_even y = \<lfloor>y\<rfloor> + 1 \<and> 1 / 2 \<le> y - of_int \<lfloor>y\<rfloor>"
  by (auto simp: round_half_even_def Let_def)

lemma round_half_even_err: "\<bar>of_int (round_half_even y) - y\<bar> \<le> 1 / 2"
proof -
  have "of_int \<lfloor>y\<rfloor> \<le> y" "y < of_int \<lfloor>y\<rfloor> + 1" by linarith+
  then show ?thesis using round_half_even_cases [of y] by auto
qed

lemma round_half_even_of_int [simp]: "round_half_even (of_int n) = n"
  by (simp add: round_half_even_def)

lemma round_half_even_mono:
  assumes "y \<le> z"
  shows "round_half_even y \<le> round_half_even z"
proof (cases "\<lfloor>y\<rfloor> = \<lfloor>z\<rfloor>")
  case True
  then show ?thesis using assms
    by (auto simp: round_half_even_def Let_def)
next
  case False
  then have "\<lfloor>y\<rfloor> + 1 \<le> \<lfloor>z\<rfloor>" using floor_mono [OF assms] by linarith
  moreover have "round_half_even y \<le> \<lfloor>y\<rfloor> + 1" using round_half_even_cases [of y] by auto
  moreover have "\<lfloor>z\<rfloor> \<le> round_half_even z" using round_half_even_cases [of z] by auto
  ultimately show ?thesis by linarith
qed

lemma float64_zero [simp]: "float64 0 = 0"
  by (simp add: float64_def)

lemma float64_pos_eq:
  "0 < x \<Longrightarrow> float64 x = of_int (round_half_even (x / 2 powi (ilog2 x - 52))) * 2 powi (ilog2 x - 52)"
  by (simp add: float64_def Let_def)

lemma pow2_split: "(2::rat) powi E = 2 ^ 52 * 2 powi (E - 52)"
proof -
  have "(2::rat) powi (52 + (E - 52)) = 2 powi 52 * 2 powi (E - 52)"
    by (rule power_int_add) simp
  then show ?thesis by simp
qed

lemma pow2_split1: "(2::rat) powi (E + 1) = 2 ^ 53 * 2 powi (E - 52)"
proof -
  have "(2::rat) powi (53 + (E - 52)) = 2 powi 53 * 2 powi (E - 52)"
    by (rule power_int_add) simp
  moreover have "53 + (E - 52) = E + 1" by simp
  ultimately show ?thesis by simp
qed

lemma significand_bounds:
  assumes "0 < x"
  shows "2 ^ 52 \<le> x / 2 powi (ilog2 x - 52)" and "x / 2 powi (ilog2 x - 52) < 2 ^ 53"
proof -
  have s: "(0::rat) < 2 powi (ilog2 x - 52)" by simp
  have "2 ^ 52 * 2 powi (ilog2 x - 52) \<le> x"
    using ilog2_bounds(1) [OF assms] pow2_split [of "ilog2 x"] by simp
  then show "2 ^ 52 \<le> x / 2 powi (ilog2 x - 52)" using s by (simp add: pos_le_divide_eq)
  have "x < 2 ^ 53 * 2 powi (ilog2 x - 52)"
    using ilog2_bounds(2) [OF assms] pow2_split1 [of "ilog2 x"] by simp
  then show "x / 2 powi (ilog2 x - 52) < 2 ^ 53" using s by (simp add: pos_divide_less_eq)
qed

lemma round_significand_bounds:
  assumes "0 < x"
  shows "2 ^ 52 \<le> round_half_even (x / 2 powi (ilog2 x - 52))"
    and "round_half_even (x / 2 powi (ilog2 x - 52)) \<le> 2 ^ 53"
proof -
  have "round_half_even (of_int (2 ^ 52)) \<le> round_half_even (x / 2 powi (ilog2 x - 52))"
    by (rule round_half_even_mono) (use significand_bounds(1) [OF assms] in simp)
  then show "2 ^ 52 \<le> round_half_even (x / 2 powi (ilog2 x - 52))"
    by (simp only: round_half_even_of_int)
  have "round_half_even (x / 2 powi (ilog2 x - 52)) \<le> round_half_even (of_int (2 ^ 53))"
    by (rule round_half_even_mono) (use significand_bounds(2) [OF assms] in simp)
  then show "round_half_even (x / 2 powi (ilog2 x - 52)) \<le> 2 ^ 53"
    by (simp only: round_half_even_of_int)
qed

lemma float64_binade:
  assumes "0 < x"
  shows "2 powi (ilog2 x) \<le> float64 x" and "float64 x \<le> 2 powi (ilog2 x + 1)"
proof -
  have s: "(0::rat) < 2 powi (ilog2 x - 52)" by simp
  have "(of_int (2 ^ 52) :: rat) \<le> of_int (round_half_even (x / 2 powi (ilog2 x - 52)))"
    using round_significand_bounds(1) [OF assms] by (simp only: of_int_le_iff)
  then have "2 ^ 52 * 2 powi (ilog2 x - 52) \<le> float64 x"
    unfolding float64_pos_eq [OF assms] using s by (simp add: mult_right_mono)
  then show "2 powi (ilog2 x) \<le> float64 x" using pow2_split [of "ilog2 x"] by simp
  have "(of_int (round_half_even (x / 2 powi (ilog2 x - 52))) :: rat) \<le> of_int (2 ^ 53)"
    using round_significand_bounds(2) [OF assms] by (simp only: of_int_le_iff)
  then have "float64 x \<le> 2 ^ 53 * 2 powi (ilog2 x - 52)"
    unfolding float64_pos_eq [OF assms] using s by (simp add: mult_right_mono)
  then show "float64 x \<le> 2 powi (ilog2 x + 1)" using pow2_split1 [of "ilog2 x"] by simp
qed

lemma float64_abs_err:
  assumes "0 < x"
  shows "\<bar>float64 x - x\<bar> \<le> 2 powi (ilog2 x - 52) / 2"
proof -
  define s where "s = (2::rat) powi (ilog2 x - 52)"
  have s: "0 < s" by (simp add: s_def)
  define m where "m = round_half_even (x / s)"
  have "\<bar>of_int m - x / s\<bar> \<le> 1 / 2" unfolding m_def by (rule round_half_even_err)
  then have "\<bar>of_int m - x / s\<bar> * s \<le> 1 / 2 * s" using s by (simp add: mult_right_mono)
  moreover have "\<bar>of_int m - x / s\<bar> * s = \<bar>(of_int m - x / s) * s\<bar>"
    using s by (simp add: abs_mult)
  moreover have "(of_int m - x / s) * s = of_int m * s - x"
    using s by (simp add: left_diff_distrib)
  ultimately have "\<bar>of_int m * s - x\<bar> \<le> s / 2" by simp
  then show ?thesis unfolding float64_pos_eq [OF assms] m_def s_def .
qed

lemma float64_rel_err:
  assumes "0 < x"
  shows "\<bar>float64 x - x\<bar> \<le> x / 2 ^ 53"
proof -
  have "2 ^ 52 * 2 powi (ilog2 x - 52) \<le> x"
    using ilog2_bounds(1) [OF assms] pow2_split [of "ilog2 x"] by simp
  then have "2 powi (ilog2 x - 52) / 2 \<le> x / 2 ^ 53" by simp
  then show ?thesis using float64_abs_err [OF assms] by linarith
qed

lemma ilog2_mono:
  assumes "0 < x" "x \<le> y"
  shows "ilog2 x \<le> ilog2 y"
proof (rule ccontr)
  assume "\<not> ilog2 x \<le> ilog2 y"
  then have "ilog2 y + 1 \<le> ilog2 x" by simp
  then have "(2::rat) powi (ilog2 y + 1) \<le> 2 powi (ilog2 x)"
    by (intro power_int_increasing) simp_all
  moreover have "y < 2 powi (ilog2 y + 1)" using ilog2_bounds(2) [of y] assms by simp
  moreover have "2 powi (ilog2 x) \<le> x" using ilog2_bounds(1) [OF assms(1)] .
  ultimately show False using assms(2) by linarith
qed

lemma float64_mono_pos:
  assumes "0 < x" "x \<le> y"
  shows "float64 x \<le> float64 y"
proof (cases "ilog2 x = ilog2 y")
  case True
  have y: "0 < y" using assms by simp
  have s: "(0::rat) < 2 powi (ilog2 y - 52)" by simp
  have "x / 2 powi (ilog2 y - 52) \<le> y / 2 powi (ilog2 y - 52)"
    using assms(2) s by (simp add: divide_right_mono)
  then have "round_half_even (x / 2 powi (ilog2 y - 52)) \<le> round_half_even (y / 2 powi (ilog2 y - 52))"
    by (rule round_half_even_mono)
  then have "(of_int (round_half_even (x / 2 powi (ilog2 y - 52))) :: rat)
               \<le> of_int (round_half_even (y / 2 powi (ilog2 y - 52)))"
    by (simp only: of_int_le_iff)
  then show ?thesis
    unfolding float64_pos_eq [OF assms(1)] float64_pos_eq [OF y] True
    using s by (simp add: mult_right_mono)
next
  case False
  have y: "0 < y" using assms by simp
  have "ilog2 x + 1 \<le> ilog2 y" using False ilog2_mono [OF assms] by simp
  then have "(2::rat) powi (ilog2 x + 1) \<le> 2 powi (ilog2 y)"
    by (intro power_int_increasing) simp_all
  then show ?thesis
    using float64_binade(2) [OF assms(1)] float64_binade(1) [OF y] by linarith
qed

lemma float64_nonneg: "0 \<le> x \<Longrightarrow> 0 \<le> float64 x"
proof (cases "x = 0")
  case False
  assume "0 \<le> x"
  then have x: "0 < x" using False by simp
  have "(0::rat) < 2 powi (ilog2 x)" by simp
  then show ?thesis using float64_binade(1) [OF x] by linarith
qed simp

lemma float64_mono:
  assumes "0 \<le> x" "x \<le> y"
  shows "float64 x \<le> float64 y"
proof (cases "x = 0")
  case True
  then show ?thesis using assms float64_nonneg [of y] by simp
next
  case False
  then show ?thesis using assms float64_mono_pos [of x y] by simp
qed

section \<open>Evaluating the rounding on numerals\<close>

lemma floor_rat_numeral:
  "\<lfloor>numeral a / numeral b :: rat\<rfloor> = numeral a div numeral b"
  using floor_divide_of_int_eq [of "numeral a" "numeral b", where ?'a = rat] by simp

lemma ilog2_unique:
  assumes "0 < x" "2 powi E \<le> x" "x < 2 powi (E + 1)"
  shows "ilog2 x = E"
proof (rule ccontr)
  assume ne: "ilog2 x \<noteq> E"
  show False
  proof (cases "ilog2 x < E")
    case True
    then have "(2::rat) powi (ilog2 x + 1) \<le> 2 powi E"
      by (intro power_int_increasing) simp_all
    then show False using ilog2_bounds(2) [OF assms(1)] assms(2) by linarith
  next
    case False
    then have "E + 1 \<le> ilog2 x" using ne by simp
    then have "(2::rat) powi (E + 1) \<le> 2 powi (ilog2 x)"
      by (intro power_int_increasing) simp_all
    then show False using ilog2_bounds(1) [OF assms(1)] assms(3) by linarith
  qed
qed

lemma float64_eval:
  assumes "0 < x" "2 powi E \<le> x" "x < 2 powi (E + 1)"
  shows "float64 x = of_int (round_half_even (x / 2 powi (E - 52))) * 2 powi (E - 52)"
  using float64_pos_eq [OF assms(1)] ilog2_unique [OF assms] by simp

lemma float64_of_int_pos:
  assumes "0 < n" "n < 2 ^ 53"
  shows "float64 (of_int n) = of_int n"
proof -
  have x: "(0::rat) < of_int n" using assms by simp
  define E where "E = ilog2 (of_int n)"
  have "(2::rat) powi E \<le> of_int n" unfolding E_def using ilog2_bounds(1) [OF x] .
  moreover have "(of_int n :: rat) < 2 powi 53" using assms(2)
    by (metis of_int_less_iff of_int_numeral of_int_power power_int_numeral)
  ultimately have lt: "(2::rat) powi E < 2 powi 53" by linarith
  have "E < 53"
  proof (rule ccontr)
    assume "\<not> E < 53"
    then have "(2::rat) powi 53 \<le> 2 powi E"
      by (intro power_int_increasing) simp_all
    then show False using lt by linarith
  qed
  then have k: "0 \<le> 52 - E" by simp
  define k where "k = nat (52 - E)"
  have e: "E - 52 = - int k" using k by (simp add: k_def)
  have p: "(2::rat) powi (E - 52) = 1 / 2 ^ k" unfolding e by (simp add: power_int_minus_divide)
  have "of_int n / (2::rat) powi (E - 52) = of_int (n * 2 ^ k)" unfolding p by simp
  then have "round_half_even (of_int n / (2::rat) powi (E - 52)) = n * 2 ^ k"
    by (simp only: round_half_even_of_int)
  then show ?thesis unfolding float64_pos_eq [OF x] E_def [symmetric] p by simp
qed

lemma float64_of_nat: "n < 2 ^ 53 \<Longrightarrow> float64 (of_int (int n)) = of_int (int n)"
proof (cases "n = 0")
  case False
  assume "n < 2 ^ 53"
  then have "int n < 2 ^ 53" by (metis of_nat_less_iff of_nat_numeral of_nat_power)
  then show ?thesis using False float64_of_int_pos [of "int n"] by simp
qed simp

lemma float64_255 [simp]: "float64 255 = 255"
  using float64_of_int_pos [of 255] by simp

lemma float64_100 [simp]: "float64 100 = 100"
  using float64_of_int_pos [of 100] by simp

lemma float64_1 [simp]: "float64 1 = 1"
  using float64_of_int_pos [of 1] by simp

lemma float64_one_255: "float64 (1 / 255) = 282578800148737 / 2 ^ 56"
  using float64_eval [of "1 / 255" "- 8"]
  by (simp add: power_int_minus_divide round_half_even_def Let_def floor_rat_numeral)

lemma sdiv_table_values:
  "sdiv_table 255 = 4096" "sdiv_table 200 = 5222" "sdiv_table 10 = 104448"
  by (simp_all add: sdiv_table_def round_half_even_def Let_def floor_rat_numeral)

lemma hdiv_table180_values:
  "hdiv_table180 255 = 482" "hdiv_table180 157 = 783" "hdiv_table180 8 = 15360"
  by (simp_all add: hdiv_table180_def round_half_even_def Let_def floor_rat_numeral)

lemma bgr2hsv_examples:
  "cv_COLOR_BGR2HSV (0, 255, 0) = (60, 255, 255)"
  "cv_COLOR_BGR2HSV (0, 0, 255) = (0, 255, 255)"
  "cv_COLOR_BGR2HSV (43, 200, 43) = (60, 200, 200)"
  "cv_COLOR_BGR2HSV (43, 95, 200) = (10, 200, 200)"
  "cv_COLOR_BGR2HSV (192, 200, 192) = (60, 10, 200)"
  "cv_COLOR_BGR2HSV (2, 10, 2) = (60, 204, 10)"
  unfolding cv_COLOR_BGR2HSV_def Let_def fst_conv snd_conv
  by (simp_all only: uint_bintrunc) (simp_all add: sdiv_table_values hdiv_table180_values)

section \<open>The three results of segment_hsv\<close>

lemma segment_hsv_mask:
  "fst (segment_hsv c img h_min h_max s_min s_max v_min v_max) =
     cv2_inRange (cv2_cvtColor c img) (h_min, s_min, v_min) (h_max, s_max, v_max)"
  by (simp add: segment_hsv_def Let_def)

lemma segment_hsv_result:
  "fst (snd (segment_hsv c img h_min h_max s_min s_max v_min v_max)) =
     cv2_bitwise_and img img (fst (segment_hsv c img h_min h_max s_min s_max v_min v_max))"
  by (simp add: segment_hsv_def Let_def)

lemma segment_hsv_pixel_count:
  "snd (snd (segment_hsv c img h_min h_max s_min s_max v_min v_max)) =
     np_truediv (np_sum (np_greater (fst (segment_hsv c img h_min h_max s_min s_max v_min v_max)) 0)) 255"
  by (simp add: segment_hsv_def Let_def)

lemma elems_mask:
  "elems (fst (segment_hsv c img h_min h_max s_min s_max v_min v_max)) =
     map (\<lambda>p. if in_bounds (h_min, s_min, v_min) (h_max, s_max, v_max) (c p) then 255 else 0)
       (elems img)"
  by (simp add: segment_hsv_mask cv2_inRange_def cv2_cvtColor_def comp_def)

lemma length_mask:
  "length (elems (fst (segment_hsv c img h_min h_max s_min s_max v_min v_max))) =
     length (elems img)"
  by (simp add: elems_mask)

lemma elems_result:
  "elems (fst (snd (segment_hsv c img h_min h_max s_min s_max v_min v_max))) =
     map (\<lambda>p. if in_bounds (h_min, s_min, v_min) (h_max, s_max, v_max) (c p) then p
               else (0, 0, 0)) (elems img)"
proof -
  have "\<And>f. map (\<lambda>(p, q, m). if m \<noteq> 0 then and_pixel p q else (0, 0, 0))
          (zip xs (zip xs (map f xs))) =
        map (\<lambda>p. if f p \<noteq> (0::u8) then and_pixel p p else (0, 0, 0)) xs" for xs :: "pixel list"
    by (induction xs) simp_all
  moreover have "and_pixel p p = p" for p by (cases p) simp
  ultimately show ?thesis
    by (simp add: segment_hsv_result cv2_bitwise_and_def elems_mask cong: if_cong)
qed

lemma mask_positive_count:
  "np_sum (np_greater (fst (segment_hsv c img h_min h_max s_min s_max v_min v_max)) 0) =
     int (length (filter (\<lambda>p. in_bounds (h_min, s_min, v_min) (h_max, s_max, v_max) (c p))
            (elems img)))"
proof -
  have "filter (\<lambda>b. b) (map (\<lambda>x. (0::u8) < x) (map (\<lambda>p. if P p then 255 else 0) xs)) =
        map (\<lambda>p. True) (filter P xs)" for P and xs :: "pixel list"
    by (induction xs) simp_all
  then show ?thesis
    by (simp add: np_sum_def np_greater_def elems_mask)
qed

lemma count_255_mask:
  "count_list (elems (fst (segment_hsv c img h_min h_max s_min s_max v_min v_max))) 255 =
     length (filter (\<lambda>p. in_bounds (h_min, s_min, v_min) (h_max, s_max, v_max) (c p))
       (elems img))"
proof -
  have "count_list (map (\<lambda>p. if P p then 255 else 0) xs) (255::u8) = length (filter P xs)"
    for P and xs :: "pixel list"
    by (induction xs) simp_all
  then show ?thesis by (simp add: elems_mask)
qed

section \<open>Mask and composite\<close>

lemma in_bounds_iff:
  "in_bounds (h_min, s_min, v_min) (h_max, s_max, v_max) p =
     (case p of (h, s, v) \<Rightarrow>
        h_min \<le> uint h \<and> uint h \<le> h_max \<and>
        s_min \<le> uint s \<and> uint s \<le> s_max \<and>
        v_min \<le> uint v \<and> uint v \<le> v_max)"
  by (cases p) simp

lemma in_bounds_empty:
  "h_max < h_min \<or> s_max < s_min \<or> v_max < v_min \<Longrightarrow>
     \<not> in_bounds (h_min, s_min, v_min) (h_max, s_max, v_max) p"
  by (cases p) auto

lemma in_bounds_widen:
  assumes "in_bounds (h_min, s_min, v_min) (h_max, s_max, v_max) p"
    and "h_min' \<le> h_min" "h_max \<le> h_max'"
    and "s_min' \<le> s_min" "s_max \<le> s_max'"
    and "v_min' \<le> v_min" "v_max \<le> v_max'"
  shows "in_bounds (h_min', s_min', v_min') (h_max', s_max', v_max') p"
  using assms by (cases p) auto

text \<open>
  Claim C4. A mask element is 255 exactly when the converted pixel has its hue, its
  saturation and its value each between the two bounds of its channel, both bounds
  included, all three at once. The comparison is the linear order of the integers, so a
  channel whose lower bound exceeds its upper bound selects nothing and the mask element
  is 0.
\<close>

theorem mask_selects_inclusive_conjunction:
  "i < length (elems img) \<Longrightarrow>
     (elems (fst (segment_hsv c img h_min h_max s_min s_max v_min v_max)) ! i = 255) =
       (case elems (cv2_cvtColor c img) ! i of (h, s, v) \<Rightarrow>
          h_min \<le> uint h \<and> uint h \<le> h_max \<and>
          s_min \<le> uint s \<and> uint s \<le> s_max \<and>
          v_min \<le> uint v \<and> uint v \<le> v_max)
     \<and> (h_max < h_min \<or> s_max < s_min \<or> v_max < v_min \<longrightarrow>
          elems (fst (segment_hsv c img h_min h_max s_min s_max v_min v_max)) ! i = 0)"
proof -
  assume i: "i < length (elems img)"
  have "(elems (fst (segment_hsv c img h_min h_max s_min s_max v_min v_max)) ! i = 255) =
          in_bounds (h_min, s_min, v_min) (h_max, s_max, v_max) (c (elems img ! i))"
    using i by (simp add: elems_mask)
  moreover have "elems (cv2_cvtColor c img) ! i = c (elems img ! i)"
    using i by (simp add: cv2_cvtColor_def)
  moreover have "h_max < h_min \<or> s_max < s_min \<or> v_max < v_min \<Longrightarrow>
      elems (fst (segment_hsv c img h_min h_max s_min s_max v_min v_max)) ! i = 0"
    using i by (simp add: elems_mask in_bounds_empty)
  ultimately show ?thesis
    by (simp only: in_bounds_iff) blast
qed

text \<open>
  Claim C6. Every element of the mask is 0 or 255, and the mask has the rows and columns
  of the source image, one element for each pixel.
\<close>

theorem mask_binary_same_shape:
  "set (elems (fst (segment_hsv c img h_min h_max s_min s_max v_min v_max))) \<subseteq> {0, 255}
   \<and> shape0 (fst (segment_hsv c img h_min h_max s_min s_max v_min v_max)) = shape0 img
   \<and> shape1 (fst (segment_hsv c img h_min h_max s_min s_max v_min v_max)) = shape1 img
   \<and> length (elems (fst (segment_hsv c img h_min h_max s_min s_max v_min v_max))) =
        length (elems img)"
proof -
  have "set (elems (fst (segment_hsv c img h_min h_max s_min s_max v_min v_max))) \<subseteq> {0, 255}"
    by (auto simp: elems_mask)
  moreover have "shape0 (fst (segment_hsv c img h_min h_max s_min s_max v_min v_max)) = shape0 img"
    "shape1 (fst (segment_hsv c img h_min h_max s_min s_max v_min v_max)) = shape1 img"
    by (simp_all add: segment_hsv_mask cv2_inRange_def cv2_cvtColor_def)
  ultimately show ?thesis by (simp add: length_mask)
qed

text \<open>
  Claim C5. Where the mask is 0 the pixel of the composite is (0, 0, 0); where the mask
  is 255 it is the pixel of the source, channel for channel. The composite has the shape
  of the source.
\<close>

theorem composite_black_or_source:
  "i < length (elems img) \<Longrightarrow>
     (elems (fst (segment_hsv c img h_min h_max s_min s_max v_min v_max)) ! i = 0 \<longrightarrow>
        elems (fst (snd (segment_hsv c img h_min h_max s_min s_max v_min v_max))) ! i = (0, 0, 0))
     \<and> (elems (fst (segment_hsv c img h_min h_max s_min s_max v_min v_max)) ! i = 255 \<longrightarrow>
        elems (fst (snd (segment_hsv c img h_min h_max s_min s_max v_min v_max))) ! i
          = elems img ! i)
     \<and> shape0 (fst (snd (segment_hsv c img h_min h_max s_min s_max v_min v_max))) = shape0 img
     \<and> shape1 (fst (snd (segment_hsv c img h_min h_max s_min s_max v_min v_max))) = shape1 img
     \<and> length (elems (fst (snd (segment_hsv c img h_min h_max s_min s_max v_min v_max)))) =
          length (elems img)"
proof -
  assume i: "i < length (elems img)"
  have "elems (fst (segment_hsv c img h_min h_max s_min s_max v_min v_max)) ! i = 0 \<Longrightarrow>
        elems (fst (snd (segment_hsv c img h_min h_max s_min s_max v_min v_max))) ! i = (0, 0, 0)"
    using i by (simp add: elems_mask elems_result split: if_splits)
  moreover have "elems (fst (segment_hsv c img h_min h_max s_min s_max v_min v_max)) ! i = 255 \<Longrightarrow>
        elems (fst (snd (segment_hsv c img h_min h_max s_min s_max v_min v_max))) ! i = elems img ! i"
    using i by (simp add: elems_mask elems_result split: if_splits)
  moreover have "shape0 (fst (snd (segment_hsv c img h_min h_max s_min s_max v_min v_max))) = shape0 img"
    "shape1 (fst (snd (segment_hsv c img h_min h_max s_min s_max v_min v_max))) = shape1 img"
    by (simp_all add: segment_hsv_result cv2_bitwise_and_def)
  moreover have "length (elems (fst (snd (segment_hsv c img h_min h_max s_min s_max v_min v_max)))) =
        length (elems img)"
    by (simp add: elems_result)
  ultimately show ?thesis by blast
qed

section \<open>Widening the range\<close>

lemma length_filter_imp:
  "(\<And>x. P x \<Longrightarrow> Q x) \<Longrightarrow> length (filter P xs) \<le> length (filter Q xs)"
  by (induction xs) auto

lemma np_truediv_mono:
  assumes "0 \<le> a" "a \<le> b"
  shows "np_truediv a 255 \<le> np_truediv b 255"
proof -
  have "float64 (of_int a) \<le> float64 (of_int b)"
    using assms by (intro float64_mono) simp_all
  then have "float64 (of_int a) / 255 \<le> float64 (of_int b) / 255"
    by (simp add: divide_right_mono)
  moreover have "0 \<le> float64 (of_int a) / 255"
    using assms(1) float64_nonneg [of "of_int a"] by simp
  ultimately have "float64 (float64 (of_int a) / 255) \<le> float64 (float64 (of_int b) / 255)"
    by (intro float64_mono)
  then show ?thesis by (simp add: np_truediv_def)
qed

text \<open>
  Claim C7. For a fixed image, a range that contains another one on all six bounds gives a
  pixel count at least as large, both for the returned \<open>pixel_count\<close> and for the number
  of mask elements equal to 255. Moving one bound outwards and keeping the other five is
  the special case.
\<close>

theorem widening_never_decreases_count:
  assumes "h_min' \<le> h_min" "h_max \<le> h_max'"
    and "s_min' \<le> s_min" "s_max \<le> s_max'"
    and "v_min' \<le> v_min" "v_max \<le> v_max'"
  shows "snd (snd (segment_hsv c img h_min h_max s_min s_max v_min v_max))
           \<le> snd (snd (segment_hsv c img h_min' h_max' s_min' s_max' v_min' v_max'))
         \<and> count_list (elems (fst (segment_hsv c img h_min h_max s_min s_max v_min v_max))) 255
           \<le> count_list
                (elems (fst (segment_hsv c img h_min' h_max' s_min' s_max' v_min' v_max'))) 255"
proof -
  have le: "length (filter (\<lambda>p. in_bounds (h_min, s_min, v_min) (h_max, s_max, v_max) (c p))
                (elems img))
        \<le> length (filter (\<lambda>p. in_bounds (h_min', s_min', v_min') (h_max', s_max', v_max') (c p))
                (elems img))"
    by (rule length_filter_imp) (rule in_bounds_widen [OF _ assms])
  then have "np_truediv
        (np_sum (np_greater (fst (segment_hsv c img h_min h_max s_min s_max v_min v_max)) 0)) 255
      \<le> np_truediv
        (np_sum (np_greater
           (fst (segment_hsv c img h_min' h_max' s_min' s_max' v_min' v_max')) 0)) 255"
    unfolding mask_positive_count by (intro np_truediv_mono) simp_all
  then show ?thesis
    using le by (simp only: segment_hsv_pixel_count count_255_mask)
qed

section \<open>Concrete runs\<close>

lemma elems_mask_green_red:
  "elems (fst (segment_hsv cv_COLOR_BGR2HSV green_red_image 30 85 50 255 50 255)) = [255, 0]"
  "elems (fst (segment_hsv cv_COLOR_BGR2HSV green_red_image 0 85 50 255 50 255)) = [255, 255]"
  "elems (fst (segment_hsv cv_COLOR_BGR2HSV green_red_image 85 30 50 255 50 255)) = [0, 0]"
  "elems (fst (snd (segment_hsv cv_COLOR_BGR2HSV green_red_image 30 85 50 255 50 255))) =
     [(0, 255, 0), (0, 0, 0)]"
  by (simp_all add: elems_mask elems_result green_red_image_def bgr2hsv_examples)

theorem mask_selects_inclusive_conjunction_witness:
  "(0::nat) < length (elems green_red_image)
   \<and> elems (fst (segment_hsv cv_COLOR_BGR2HSV green_red_image 30 85 50 255 50 255)) ! 0 = 255
   \<and> ((30::int) < 85 \<or> (255::int) < 50 \<or> (255::int) < 50)
   \<and> elems (fst (segment_hsv cv_COLOR_BGR2HSV green_red_image 85 30 50 255 50 255)) ! 0 = 0"
  using mask_selects_inclusive_conjunction
          [of 0 green_red_image cv_COLOR_BGR2HSV 30 85 50 255 50 255]
        mask_selects_inclusive_conjunction
          [of 0 green_red_image cv_COLOR_BGR2HSV 85 30 50 255 50 255]
  by (simp add: cv2_cvtColor_def bgr2hsv_examples green_red_image_def)

theorem composite_black_or_source_witness:
  "(1::nat) < length (elems green_red_image)
   \<and> elems (fst (segment_hsv cv_COLOR_BGR2HSV green_red_image 30 85 50 255 50 255)) ! 0 = 255
   \<and> elems (fst (snd (segment_hsv cv_COLOR_BGR2HSV green_red_image 30 85 50 255 50 255))) ! 0
        = elems green_red_image ! 0
   \<and> elems (fst (segment_hsv cv_COLOR_BGR2HSV green_red_image 30 85 50 255 50 255)) ! 1 = 0
   \<and> elems (fst (snd (segment_hsv cv_COLOR_BGR2HSV green_red_image 30 85 50 255 50 255))) ! 1
        = (0, 0, 0)"
proof -
  have len: "(0::nat) < length (elems green_red_image)" "(1::nat) < length (elems green_red_image)"
    by (simp_all add: green_red_image_def)
  have m: "elems (fst (segment_hsv cv_COLOR_BGR2HSV green_red_image 30 85 50 255 50 255)) ! 0 = 255"
    "elems (fst (segment_hsv cv_COLOR_BGR2HSV green_red_image 30 85 50 255 50 255)) ! 1 = 0"
    by (simp_all add: elems_mask_green_red)
  show ?thesis
    using composite_black_or_source
            [OF len(1), of cv_COLOR_BGR2HSV 30 85 50 255 50 255]
          composite_black_or_source
            [OF len(2), of cv_COLOR_BGR2HSV 30 85 50 255 50 255]
          len(2) m
    by blast
qed

theorem widening_never_decreases_count_witness:
  "(0::int) \<le> 30 \<and> (85::int) \<le> 85 \<and> (50::int) \<le> 50 \<and> (255::int) \<le> 255
   \<and> snd (snd (segment_hsv cv_COLOR_BGR2HSV green_red_image 30 85 50 255 50 255))
       \<le> snd (snd (segment_hsv cv_COLOR_BGR2HSV green_red_image 0 85 50 255 50 255))
   \<and> count_list (elems (fst (segment_hsv cv_COLOR_BGR2HSV green_red_image 30 85 50 255 50 255)))
        255 = 1
   \<and> count_list (elems (fst (segment_hsv cv_COLOR_BGR2HSV green_red_image 0 85 50 255 50 255)))
        255 = 2"
  using widening_never_decreases_count
          [of 0 30 85 85 50 50 255 255 50 50 255 255 cv_COLOR_BGR2HSV green_red_image]
  by (simp add: elems_mask_green_red)

lemma segment_green_pixel:
  "segment_hsv cv_COLOR_BGR2HSV green_pixel_image 30 85 50 255 50 255 =
     (\<lparr>shape0 = 1, shape1 = 1, elems = [255]\<rparr>,
      \<lparr>shape0 = 1, shape1 = 1, elems = [(0, 255, 0)]\<rparr>,
      282578800148737 / 2 ^ 56)"
  by (simp add: segment_hsv_def Let_def cv2_cvtColor_def cv2_inRange_def cv2_bitwise_and_def
      np_sum_def np_greater_def np_truediv_def bgr2hsv_examples float64_one_255
      green_pixel_image_def)

lemma segment_four_pixel:
  "segment_hsv cv_COLOR_BGR2HSV four_pixel_image 30 85 50 255 50 255 =
     (\<lparr>shape0 = 2, shape1 = 2, elems = [255, 0, 0, 0]\<rparr>,
      \<lparr>shape0 = 2, shape1 = 2, elems = [(43, 200, 43), (0, 0, 0), (0, 0, 0), (0, 0, 0)]\<rparr>,
      282578800148737 / 2 ^ 56)"
  by (simp add: segment_hsv_def Let_def cv2_cvtColor_def cv2_inRange_def cv2_bitwise_and_def
      np_sum_def np_greater_def np_truediv_def bgr2hsv_examples float64_one_255
      four_pixel_image_def)

lemma float64_4 [simp]: "float64 4 = 4"
  using float64_of_int_pos [of 4] by simp

lemma percentage_four_pixel:
  "np_float_mul_int (np_float_div_int (282578800148737 / 2 ^ 56) 4) 100 =
     Some (7064470003718425 / 2 ^ 56)"
proof -
  have b: "float64 (282578800148737 / 2 ^ 56 / 4) = 282578800148737 / 2 ^ 58"
    using float64_eval [of "282578800148737 / 2 ^ 56 / 4" "- 10"]
    by (simp add: power_int_minus_divide round_half_even_def Let_def floor_rat_numeral)
  have c: "float64 (282578800148737 / 2 ^ 58 * 100) = 7064470003718425 / 2 ^ 56"
    using float64_eval [of "282578800148737 / 2 ^ 58 * 100" "- 4"]
    by (simp add: power_int_minus_divide round_half_even_def Let_def floor_rat_numeral)
  have "np_float_div_int (282578800148737 / 2 ^ 56) 4 = Some (282578800148737 / 2 ^ 58)"
    unfolding np_float_div_int_def using b by simp
  then show ?thesis unfolding np_float_mul_int_def using c by simp
qed

lemma percentage_one_pixel:
  "np_float_mul_int (np_float_div_int (282578800148737 / 2 ^ 56) 1) 100 =
     Some (7064470003718425 / 2 ^ 54)"
proof -
  have b: "float64 (282578800148737 / 2 ^ 56) = 282578800148737 / 2 ^ 56"
    using float64_eval [of "282578800148737 / 2 ^ 56" "- 8"]
    by (simp add: power_int_minus_divide round_half_even_def Let_def floor_rat_numeral)
  have c: "float64 (282578800148737 / 2 ^ 56 * 100) = 7064470003718425 / 2 ^ 54"
    using float64_eval [of "282578800148737 / 2 ^ 56 * 100" "- 2"]
    by (simp add: power_int_minus_divide round_half_even_def Let_def floor_rat_numeral)
  have "np_float_div_int (282578800148737 / 2 ^ 56) 1 = Some (282578800148737 / 2 ^ 56)"
    unfolding np_float_div_int_def using b by simp
  then show ?thesis unfolding np_float_mul_int_def using c by simp
qed

lemma py_int_pixel_count: "py_int (282578800148737 / 2 ^ 56) = 0"
  by (simp add: py_int_def floor_rat_numeral)

section \<open>The loader\<close>

lemma st_call_cases:
  "st_call st_raises ev st = (Inr (), st @ [ev])
     \<or> (\<exists>e. st_raises st ev = Some e \<and> st_call st_raises ev st = (Inl e, st))"
  by (cases "st_raises st ev") (simp_all add: st_call_def)

lemma st_calls_returns: "st_calls st_returns evs st = (Inr (), st @ evs)"
  by (induction evs arbitrary: st) (simp_all add: st_call_def st_returns_def)


lemma load_catches:
  "load_color_image_try st_raises read dec ia f st = (Inl e, st') \<Longrightarrow> except_Exception e \<Longrightarrow>
     st_raises st' (St_error (''Terjadi kesalahan saat memproses citra: '' @ exn_text e)) = None \<Longrightarrow>
     load_color_image st_raises read dec ia (Some f) st =
       (Inr None, st' @ [St_error (''Terjadi kesalahan saat memproses citra: '' @ exn_text e)])"
  by (simp add: load_color_image_def st_call_def)

lemma load_handles:
  "load_color_image_try st_raises read dec ia f st = (Inl e, st') \<Longrightarrow> except_Exception e \<Longrightarrow>
     load_color_image st_raises read dec ia (Some f) st =
       (case st_call st_raises
               (St_error (''Terjadi kesalahan saat memproses citra: '' @ exn_text e)) st' of
          (Inl e', st'') \<Rightarrow> (Inl e', st'')
        | (Inr u, st'') \<Rightarrow> (Inr None, st''))"
  by (simp add: load_color_image_def)

lemma load_propagates:
  "load_color_image_try st_raises read dec ia f st = (Inl e, st') \<Longrightarrow> \<not> except_Exception e \<Longrightarrow>
     load_color_image st_raises read dec ia (Some f) st = (Inl e, st')"
  by (simp add: load_color_image_def)

lemma load_raised_cases:
  assumes "load_color_image_try st_raises read dec ia f st = (Inl e, st')"
  shows "(except_Exception e
            \<and> load_color_image st_raises read dec ia (Some f) st =
                (Inr None,
                 st' @ [St_error (''Terjadi kesalahan saat memproses citra: '' @ exn_text e)]))
     \<or> (except_Exception e
            \<and> (\<exists>e'. st_raises st'
                        (St_error (''Terjadi kesalahan saat memproses citra: '' @ exn_text e))
                      = Some e'
                  \<and> load_color_image st_raises read dec ia (Some f) st = (Inl e', st')))
     \<or> (\<not> except_Exception e
            \<and> load_color_image st_raises read dec ia (Some f) st = (Inl e, st'))"
proof (cases "except_Exception e")
  case False
  then show ?thesis using load_propagates [OF assms] by simp
next
  case True
  show ?thesis
    using load_handles [OF assms True] True
      st_call_cases [of st_raises
        "St_error (''Terjadi kesalahan saat memproses citra: '' @ exn_text e)" st']
    by auto
qed

lemma load_passes:
  "load_color_image_try st_raises read dec ia f st = (Inr r, st') \<Longrightarrow>
     load_color_image st_raises read dec ia (Some f) st = (Inr r, st')"
  by (simp add: load_color_image_def)


lemma try_decode_raises:
  "read f = Inr bs \<Longrightarrow> dec bs = Inl e \<Longrightarrow>
     load_color_image_try st_raises read dec ia f st = (Inl e, st)"
  by (simp add: load_color_image_try_def)

lemma try_decode_none:
  "read f = Inr bs \<Longrightarrow> dec bs = Inr None \<Longrightarrow>
     load_color_image_try st_raises read dec ia f st =
       (case st_call st_raises
               (St_error ''Gagal memuat citra. Pastikan format file didukung atau citra tidak rusak.'')
               st of
          (Inl e, st') \<Rightarrow> (Inl e, st')
        | (Inr u, st') \<Rightarrow> (Inr None, st'))"
  by (simp add: load_color_image_try_def)

lemma try_decode_none_cases:
  assumes "read f = Inr bs" "dec bs = Inr None"
  shows "load_color_image_try st_raises read dec ia f st =
       (Inr None,
        st @ [St_error ''Gagal memuat citra. Pastikan format file didukung atau citra tidak rusak.''])
     \<or> (\<exists>e. st_raises st
                (St_error ''Gagal memuat citra. Pastikan format file didukung atau citra tidak rusak.'')
              = Some e
           \<and> load_color_image_try st_raises read dec ia f st = (Inl e, st))"
  using try_decode_none [of read f bs dec st_raises ia st] assms
    st_call_cases [of st_raises
      "St_error ''Gagal memuat citra. Pastikan format file didukung atau citra tidak rusak.''" st]
  by auto

lemma try_small:
  "read f = Inr bs \<Longrightarrow> dec bs = Inr (Some img) \<Longrightarrow> shape0 img \<le> 800 \<Longrightarrow> shape1 img \<le> 800 \<Longrightarrow>
     load_color_image_try st_raises read dec ia f st = (Inr (Some img), st)"
  by (simp add: load_color_image_try_def Let_def)

lemma try_large:
  assumes "read f = Inr bs" "dec bs = Inr (Some img)" "800 < shape0 img \<or> 800 < shape1 img"
  shows "load_color_image_try st_raises read dec ia f st =
     (case cv2_resize ia img
             (py_int (py_int_mul_float (int (shape1 img))
                (float64 (800 / of_int (max (int (shape0 img)) (int (shape1 img)))))),
              py_int (py_int_mul_float (int (shape0 img))
                (float64 (800 / of_int (max (int (shape0 img)) (int (shape1 img))))))) of
        Inl e \<Rightarrow> (Inl e, st)
      | Inr img_resized \<Rightarrow> (Inr (Some img_resized), st))"
proof -
  have "max (int (shape0 img)) (int (shape1 img)) \<noteq> 0" using assms(3) by auto
  then show ?thesis
    using assms by (auto simp: load_color_image_try_def Let_def py_truediv_def)
qed

lemma cv2_resize_raises:
  "cv2_resize ia img new_size = Inl e \<Longrightarrow> except_Exception e"
  by (cases new_size) (auto simp: cv2_resize_def split: if_splits)


lemma main_app_no_image:
  "load_color_image st_raises read dec ia (Some f) st = (Inr None, st1) \<Longrightarrow>
     main_app st_raises read dec ia c (Some f) sliders st = (Inr (), st1)"
  by (simp add: main_app_def)

lemma main_app_raised:
  "load_color_image st_raises read dec ia (Some f) st = (Inl e, st1) \<Longrightarrow>
     main_app st_raises read dec ia c (Some f) sliders st = (Inl e, st1)"
  by (simp add: main_app_def)

lemma main_app_loaded:
  assumes "load_color_image st_raises read dec ia (Some f) st = (Inr (Some img), st1)"
  shows "main_app st_raises read dec ia c (Some f) (h_min, h_max, s_min, s_max, v_min, v_max) st =
     st_calls st_raises
       [St_success ''Citra berhasil dimuat. Lanjutkan ke langkah 2 untuk mengontrol segmentasi.'',
        St_image_color (cv2_cvtColor COLOR_BGR2RGB img),
        St_image_color (cv2_cvtColor COLOR_BGR2RGB
          (fst (snd (segment_hsv c img h_min h_max s_min s_max v_min v_max)))),
        St_metric_count (py_int (snd (snd (segment_hsv c img h_min h_max s_min s_max v_min v_max)))),
        St_metric_percentage
          (np_float_mul_int
             (np_float_div_int (snd (snd (segment_hsv c img h_min h_max s_min s_max v_min v_max)))
                (int (shape0 img * shape1 img))) 100)
          (shape0 img * shape1 img),
        St_image_mask (fst (segment_hsv c img h_min h_max s_min s_max v_min v_max)),
        St_info_range h_min h_max s_min s_max v_min v_max]
       st1"
proof -
  obtain m r p where s: "segment_hsv c img h_min h_max s_min s_max v_min v_max = (m, r, p)"
    by (cases "segment_hsv c img h_min h_max s_min s_max v_min v_max") auto
  show ?thesis
    using assms by (simp add: main_app_def Let_def s del: st_calls.simps)
qed

lemma load_undecodable:
  assumes "read f = Inr file_bytes"
    and "dec file_bytes = Inr None \<or> dec file_bytes = Inl e"
  shows "(\<exists>msg. load_color_image st_raises read dec ia (Some f) st = (Inr None, st @ [St_error msg]))
     \<or> (\<exists>e'. load_color_image st_raises read dec ia (Some f) st = (Inl e', st))"
  using assms(2)
proof
  assume "dec file_bytes = Inr None"
  then consider
    (shown) "load_color_image_try st_raises read dec ia f st =
       (Inr None,
        st @ [St_error ''Gagal memuat citra. Pastikan format file didukung atau citra tidak rusak.''])"
    | (raised) x where "load_color_image_try st_raises read dec ia f st = (Inl x, st)"
    using try_decode_none_cases [of read f file_bytes dec st_raises ia st] assms(1) by blast
  then show ?thesis
  proof cases
    case shown
    then show ?thesis using load_passes [of st_raises read dec ia f st] by blast
  next
    case raised
    then show ?thesis using load_raised_cases [of st_raises read dec ia f st x st] by blast
  qed
next
  assume "dec file_bytes = Inl e"
  then have "load_color_image_try st_raises read dec ia f st = (Inl e, st)"
    using try_decode_raises [of read f file_bytes dec e st_raises ia st] assms(1) by simp
  then show ?thesis using load_raised_cases [of st_raises read dec ia f st e st] by blast
qed

text \<open>
  Claim C9. When the bytes read from the upload cannot be decoded, because
  \<open>cv2.imdecode\<close> returns \<open>None\<close> or raises, the loader never returns an image, and
  \<open>main_app\<close> leaves the page as it was or with one error message more: no image is
  converted, segmented or shown, whatever the conversion and the sliders are. When the
  decoder's exception, if any, derives from \<open>Exception\<close> and \<open>st.error\<close> returns, the
  loader returns \<open>None\<close> after showing one error message, and \<open>main_app\<close> returns with
  nothing but that message on the page.
\<close>

theorem undecodable_bytes_give_no_image:
  assumes "read f = Inr file_bytes"
    and "dec file_bytes = Inr None \<or> dec file_bytes = Inl e"
  shows "(\<forall>img. fst (load_color_image st_raises read dec ia (Some f) st) \<noteq> Inr (Some img))
     \<and> (snd (main_app st_raises read dec ia c (Some f) sliders st) = st
          \<or> (\<exists>msg. snd (main_app st_raises read dec ia c (Some f) sliders st) = st @ [St_error msg]))
     \<and> ((dec file_bytes = Inl e \<longrightarrow> except_Exception e)
          \<and> (\<forall>msg. st_raises st (St_error msg) = None) \<longrightarrow>
        fst (load_color_image st_raises read dec ia (Some f) st) = Inr None
        \<and> (\<exists>msg. snd (load_color_image st_raises read dec ia (Some f) st) = st @ [St_error msg]
              \<and> main_app st_raises read dec ia c (Some f) sliders st =
                  (Inr (), st @ [St_error msg])))"
proof (intro conjI impI)
  have cases:
    "(\<exists>msg. load_color_image st_raises read dec ia (Some f) st = (Inr None, st @ [St_error msg]))
     \<or> (\<exists>e'. load_color_image st_raises read dec ia (Some f) st = (Inl e', st))"
    using load_undecodable [of read f file_bytes dec e st_raises ia st] assms by simp
  show "\<forall>img. fst (load_color_image st_raises read dec ia (Some f) st) \<noteq> Inr (Some img)"
    using cases by auto
  show "snd (main_app st_raises read dec ia c (Some f) sliders st) = st
          \<or> (\<exists>msg. snd (main_app st_raises read dec ia c (Some f) sliders st) = st @ [St_error msg])"
    using cases
  proof
    assume "\<exists>msg. load_color_image st_raises read dec ia (Some f) st =
        (Inr None, st @ [St_error msg])"
    then obtain msg where
      "load_color_image st_raises read dec ia (Some f) st = (Inr None, st @ [St_error msg])" ..
    then show ?thesis using main_app_no_image [of st_raises read dec ia f st _ c sliders] by simp
  next
    assume "\<exists>e'. load_color_image st_raises read dec ia (Some f) st = (Inl e', st)"
    then obtain e' where "load_color_image st_raises read dec ia (Some f) st = (Inl e', st)" ..
    then show ?thesis using main_app_raised [of st_raises read dec ia f st e' st c sliders] by simp
  qed
next
  assume h: "(dec file_bytes = Inl e \<longrightarrow> except_Exception e)
      \<and> (\<forall>msg. st_raises st (St_error msg) = None)"
  from assms(2) obtain msg where
    l: "load_color_image st_raises read dec ia (Some f) st = (Inr None, st @ [St_error msg])"
  proof
    assume "dec file_bytes = Inr None"
    then have "load_color_image_try st_raises read dec ia f st =
       (Inr None,
        st @ [St_error ''Gagal memuat citra. Pastikan format file didukung atau citra tidak rusak.''])"
      using try_decode_none_cases [of read f file_bytes dec st_raises ia st] assms(1) h by auto
    then show ?thesis
      using load_passes [of st_raises read dec ia f st] that by blast
  next
    assume d: "dec file_bytes = Inl e"
    then have t: "load_color_image_try st_raises read dec ia f st = (Inl e, st)"
      using try_decode_raises [of read f file_bytes dec e st_raises ia st] assms(1) by simp
    have c: "except_Exception e" using h d by simp
    have s: "st_raises st
        (St_error (''Terjadi kesalahan saat memproses citra: '' @ exn_text e)) = None"
      using h by simp
    show ?thesis by (rule that [OF load_catches [OF t c s]])
  qed
  show "fst (load_color_image st_raises read dec ia (Some f) st) = Inr None"
    using l by simp
  show "\<exists>msg. snd (load_color_image st_raises read dec ia (Some f) st) = st @ [St_error msg]
              \<and> main_app st_raises read dec ia c (Some f) sliders st =
                  (Inr (), st @ [St_error msg])"
    using main_app_no_image [OF l] l by auto
qed

theorem undecodable_bytes_give_no_image_witness:
  "read_bytes [1, 2, 3] = Inr [1, 2, 3]
   \<and> decode_none [1, 2, 3] = Inr None
   \<and> decode_raises [1, 2, 3] = Inl (Exception ''cv2.error: imdecode'')
   \<and> except_Exception (Exception ''cv2.error: imdecode'')
   \<and> (\<forall>msg. st_returns [] (St_error msg) = None)
   \<and> fst (load_color_image st_returns read_bytes decode_none black_area (Some [1, 2, 3]) [])
        = Inr None
   \<and> fst (load_color_image st_returns read_bytes decode_raises black_area (Some [1, 2, 3]) [])
        = Inr None
   \<and> fst (main_app st_returns read_bytes decode_none black_area cv_COLOR_BGR2HSV (Some [1, 2, 3])
           (30, 85, 50, 255, 50, 255) []) = Inr ()
   \<and> length (snd (main_app st_returns read_bytes decode_raises black_area cv_COLOR_BGR2HSV
           (Some [1, 2, 3]) (30, 85, 50, 255, 50, 255) [])) = 1"
proof -
  have r: "read_bytes [1, 2, 3] = Inr [1, 2, 3]" by (simp add: read_bytes_def)
  have n: "decode_none [1, 2, 3] = Inr None \<or> decode_none [1, 2, 3] = Inl (Exception [])"
    by (simp add: decode_none_def)
  have x: "decode_raises [1, 2, 3] = Inr None
            \<or> decode_raises [1, 2, 3] = Inl (Exception ''cv2.error: imdecode'')"
    by (simp add: decode_raises_def)
  have s: "\<forall>msg. st_returns [] (St_error msg) = None" by (simp add: st_returns_def)
  show ?thesis
    using undecodable_bytes_give_no_image
            [of read_bytes "[1, 2, 3]" "[1, 2, 3]" decode_none "Exception []" st_returns
                black_area "[]" cv_COLOR_BGR2HSV "(30, 85, 50, 255, 50, 255)"]
          undecodable_bytes_give_no_image
            [of read_bytes "[1, 2, 3]" "[1, 2, 3]" decode_raises
                "Exception ''cv2.error: imdecode''" st_returns black_area "[]"
                cv_COLOR_BGR2HSV "(30, 85, 50, 255, 50, 255)"]
          r n x s
    by (auto simp: decode_none_def decode_raises_def)
qed


section \<open>Resizing three concrete images\<close>

lemma float64_801 [simp]: "float64 801 = 801"
  using float64_of_int_pos [of 801] by simp

lemma float64_2 [simp]: "float64 2 = 2"
  using float64_of_int_pos [of 2] by simp

lemma float64_1078 [simp]: "float64 1078 = 1078"
  using float64_of_int_pos [of 1078] by simp

lemma scale_801: "float64 (800 / 801) = 8995954311851178 / 2 ^ 53"
  using float64_eval [of "800 / 801" "- 1"]
  by (simp add: power_int_minus_divide round_half_even_def Let_def floor_rat_numeral)

lemma scale_1078: "float64 (800 / 1078) = 6684377925596283 / 2 ^ 53"
  using float64_eval [of "800 / 1078" "- 1"]
  by (simp add: power_int_minus_divide round_half_even_def Let_def floor_rat_numeral)

lemma new_dim_801: "py_int (py_int_mul_float 801 (float64 (800 / 801))) = 800"
proof -
  have p: "float64 (801 * (8995954311851178 / 2 ^ 53)) = 800"
    using float64_eval [of "801 * (8995954311851178 / 2 ^ 53)" 9]
    by (simp add: power_int_minus_divide round_half_even_def Let_def floor_rat_numeral)
  have q: "py_int_mul_float 801 (float64 (800 / 801)) = 800"
    unfolding py_int_mul_float_def scale_801 of_int_numeral of_int_1 float64_801 by (rule p)
  show ?thesis unfolding q by (simp add: py_int_def floor_rat_numeral)
qed

lemma new_dim_2: "py_int (py_int_mul_float 2 (float64 (800 / 801))) = 1"
proof -
  have p: "float64 (2 * (8995954311851178 / 2 ^ 53)) = 8995954311851178 / 2 ^ 52"
    using float64_eval [of "2 * (8995954311851178 / 2 ^ 53)" 0]
    by (simp add: power_int_minus_divide round_half_even_def Let_def floor_rat_numeral)
  have q: "py_int_mul_float 2 (float64 (800 / 801)) = 8995954311851178 / 2 ^ 52"
    unfolding py_int_mul_float_def scale_801 of_int_numeral of_int_1 float64_2 by (rule p)
  show ?thesis unfolding q by (simp add: py_int_def floor_rat_numeral)
qed

lemma new_dim_1: "py_int (py_int_mul_float 1 (float64 (800 / 801))) = 0"
proof -
  have p: "float64 (1 * (8995954311851178 / 2 ^ 53)) = 8995954311851178 / 2 ^ 53"
    using float64_eval [of "1 * (8995954311851178 / 2 ^ 53)" "- 1"]
    by (simp add: power_int_minus_divide round_half_even_def Let_def floor_rat_numeral)
  have q: "py_int_mul_float 1 (float64 (800 / 801)) = 8995954311851178 / 2 ^ 53"
    unfolding py_int_mul_float_def scale_801 of_int_numeral of_int_1 float64_1 by (rule p)
  show ?thesis unfolding q by (simp add: py_int_def floor_rat_numeral)
qed

lemma new_dim_1078: "py_int (py_int_mul_float 1078 (float64 (800 / 1078))) = 799"
proof -
  have p: "float64 (1078 * (6684377925596283 / 2 ^ 53)) = 7036874417766399 / 2 ^ 43"
    using float64_eval [of "1078 * (6684377925596283 / 2 ^ 53)" 9]
    by (simp add: power_int_minus_divide round_half_even_def Let_def floor_rat_numeral)
  have q: "py_int_mul_float 1078 (float64 (800 / 1078)) = 7036874417766399 / 2 ^ 43"
    unfolding py_int_mul_float_def scale_1078 of_int_numeral of_int_1 float64_1078 by (rule p)
  show ?thesis unfolding q by (simp add: py_int_def floor_rat_numeral)
qed

lemma load_large:
  assumes "read f = Inr file_bytes" "dec file_bytes = Inr (Some img)"
    and "800 < shape0 img \<or> 800 < shape1 img"
    and "py_int (py_int_mul_float (int (shape1 img))
           (float64 (800 / of_int (max (int (shape0 img)) (int (shape1 img)))))) = w"
    and "py_int (py_int_mul_float (int (shape0 img))
           (float64 (800 / of_int (max (int (shape0 img)) (int (shape1 img)))))) = h"
  shows "load_color_image st_raises read dec ia (Some f) st =
     (case cv2_resize ia img (w, h) of
        Inl e \<Rightarrow>
          (case st_call st_raises
                  (St_error (''Terjadi kesalahan saat memproses citra: '' @ exn_text e)) st of
             (Inl e', st'') \<Rightarrow> (Inl e', st'')
           | (Inr u, st'') \<Rightarrow> (Inr None, st''))
      | Inr img_resized \<Rightarrow> (Inr (Some img_resized), st))"
proof -
  have t: "load_color_image_try st_raises read dec ia f st =
     (case cv2_resize ia img (w, h) of
        Inl e \<Rightarrow> (Inl e, st) | Inr img_resized \<Rightarrow> (Inr (Some img_resized), st))"
    using try_large [of read f file_bytes dec img st_raises ia st] assms by simp
  show ?thesis
  proof (cases "cv2_resize ia img (w, h)")
    case (Inl e)
    then show ?thesis
      using t load_handles [of st_raises read dec ia f st e st]
        cv2_resize_raises [of ia img "(w, h)" e] by simp
  next
    case (Inr r)
    then show ?thesis using t load_passes [of st_raises read dec ia f st "Some r" st] by simp
  qed
qed

lemma load_small:
  assumes "read f = Inr file_bytes" "dec file_bytes = Inr (Some img)"
    and "shape0 img \<le> 800" "shape1 img \<le> 800"
  shows "load_color_image st_raises read dec ia (Some f) st = (Inr (Some img), st)"
  using load_passes [of st_raises read dec ia f st "Some img" st]
    try_small [of read f file_bytes dec img st_raises ia st] assms by simp

lemma load_wide_image:
  "load_color_image st_returns read_bytes (decode_as wide_image) black_area (Some [1, 2, 3]) [] =
     (Inr (Some \<lparr>shape0 = 1, shape1 = 800, elems = replicate (800 * 1) (0, 0, 0)\<rparr>), [])"
proof -
  have i: "int (shape0 wide_image) = 2" "int (shape1 wide_image) = 801"
    by (simp_all add: wide_image_def)
  have m: "max (2::int) 801 = 801" by simp
  have w: "py_int (py_int_mul_float (int (shape1 wide_image))
      (float64 (800 / of_int (max (int (shape0 wide_image)) (int (shape1 wide_image)))))) = 800"
    unfolding i m of_int_numeral by (rule new_dim_801)
  have h: "py_int (py_int_mul_float (int (shape0 wide_image))
      (float64 (800 / of_int (max (int (shape0 wide_image)) (int (shape1 wide_image)))))) = 1"
    unfolding i m of_int_numeral by (rule new_dim_2)
  have "load_color_image st_returns read_bytes (decode_as wide_image) black_area (Some [1, 2, 3]) [] =
     (case cv2_resize black_area wide_image (800, 1) of
        Inl e \<Rightarrow>
          (case st_call st_returns
                  (St_error (''Terjadi kesalahan saat memproses citra: '' @ exn_text e)) [] of
             (Inl e', st'') \<Rightarrow> (Inl e', st'')
           | (Inr u, st'') \<Rightarrow> (Inr None, st''))
      | Inr img_resized \<Rightarrow> (Inr (Some img_resized), []))"
    by (rule load_large [OF _ _ _ w h])
      (simp_all add: read_bytes_def decode_as_def wide_image_def)
  then show ?thesis by (simp add: cv2_resize_def black_area_def)
qed

lemma load_thin_image:
  "load_color_image st_returns read_bytes (decode_as thin_image) black_area (Some [1, 2, 3]) [] =
     (Inr None, [St_error ''Terjadi kesalahan saat memproses citra: cv2.error: resize''])"
proof -
  have i: "int (shape0 thin_image) = 801" "int (shape1 thin_image) = 1"
    by (simp_all add: thin_image_def)
  have m: "max (801::int) 1 = 801" by simp
  have w: "py_int (py_int_mul_float (int (shape1 thin_image))
      (float64 (800 / of_int (max (int (shape0 thin_image)) (int (shape1 thin_image)))))) = 0"
    unfolding i m of_int_numeral by (rule new_dim_1)
  have h: "py_int (py_int_mul_float (int (shape0 thin_image))
      (float64 (800 / of_int (max (int (shape0 thin_image)) (int (shape1 thin_image)))))) = 800"
    unfolding i m of_int_numeral by (rule new_dim_801)
  have "load_color_image st_returns read_bytes (decode_as thin_image) black_area (Some [1, 2, 3]) [] =
     (case cv2_resize black_area thin_image (0, 800) of
        Inl e \<Rightarrow>
          (case st_call st_returns
                  (St_error (''Terjadi kesalahan saat memproses citra: '' @ exn_text e)) [] of
             (Inl e', st'') \<Rightarrow> (Inl e', st'')
           | (Inr u, st'') \<Rightarrow> (Inr None, st''))
      | Inr img_resized \<Rightarrow> (Inr (Some img_resized), []))"
    by (rule load_large [OF _ _ _ w h])
      (simp_all add: read_bytes_def decode_as_def thin_image_def)
  then show ?thesis by (simp add: cv2_resize_def st_call_def st_returns_def)
qed

lemma load_square_image:
  "load_color_image st_returns read_bytes (decode_as square_image) black_area (Some [1, 2, 3]) [] =
     (Inr (Some \<lparr>shape0 = 799, shape1 = 799, elems = replicate (799 * 799) (0, 0, 0)\<rparr>), [])"
proof -
  have i: "int (shape0 square_image) = 1078" "int (shape1 square_image) = 1078"
    by (simp_all add: square_image_def)
  have m: "max (1078::int) 1078 = 1078" by simp
  have w: "py_int (py_int_mul_float (int (shape1 square_image))
      (float64 (800 / of_int (max (int (shape0 square_image)) (int (shape1 square_image))))))
        = 799"
    unfolding i m of_int_numeral by (rule new_dim_1078)
  have h: "py_int (py_int_mul_float (int (shape0 square_image))
      (float64 (800 / of_int (max (int (shape0 square_image)) (int (shape1 square_image))))))
        = 799"
    unfolding i m of_int_numeral by (rule new_dim_1078)
  have "load_color_image st_returns read_bytes (decode_as square_image) black_area (Some [1, 2, 3]) [] =
     (case cv2_resize black_area square_image (799, 799) of
        Inl e \<Rightarrow>
          (case st_call st_returns
                  (St_error (''Terjadi kesalahan saat memproses citra: '' @ exn_text e)) [] of
             (Inl e', st'') \<Rightarrow> (Inl e', st'')
           | (Inr u, st'') \<Rightarrow> (Inr None, st''))
      | Inr img_resized \<Rightarrow> (Inr (Some img_resized), []))"
    by (rule load_large [OF _ _ _ w h])
      (simp_all add: read_bytes_def decode_as_def square_image_def)
  then show ?thesis by (simp add: cv2_resize_def black_area_def)
qed


text \<open>
  Claim C2 as stated fails: an image of 2 rows and 801 columns is resized to 1 row and 800
  columns, because \<open>int\<close> truncates 2 * (800 / 801) = 1.9975... to 1, while rounding
  gives 2.
\<close>

theorem resize_rounds_counterexample:
  "fst (load_color_image st_returns read_bytes (decode_as wide_image) black_area (Some [1, 2, 3]) []) =
     Inr (Some \<lparr>shape0 = 1, shape1 = 800, elems = replicate (800 * 1) (0, 0, 0)\<rparr>)
   \<and> shape0 wide_image = 2 \<and> shape1 wide_image = 801
   \<and> round (of_nat (shape0 wide_image)
        * (800 / of_nat (max (shape0 wide_image) (shape1 wide_image))) :: rat) = 2"
proof -
  have "round (2 * (800 / 801) :: rat) = 2"
    by (simp add: round_def floor_rat_numeral)
  then show ?thesis
    by (simp add: load_wide_image) (simp add: wide_image_def)
qed



section \<open>The returned pixel count\<close>

lemma float64_upper:
  assumes "0 < x"
  shows "float64 x \<le> x * (1 + 1 / 2 ^ 53)"
proof -
  have "float64 x \<le> x + x / 2 ^ 53" using float64_rel_err [OF assms] by linarith
  also have "\<dots> = x * (1 + 1 / 2 ^ 53)" by (simp add: algebra_simps)
  finally show ?thesis .
qed

lemma float64_lower:
  assumes "0 < x"
  shows "x * (1 - 1 / 2 ^ 53) \<le> float64 x"
proof -
  have "x * (1 - 1 / 2 ^ 53) = x - x / 2 ^ 53" by (simp add: algebra_simps)
  also have "\<dots> \<le> float64 x" using float64_rel_err [OF assms] by linarith
  finally show ?thesis .
qed

lemma float64_pos: "0 < x \<Longrightarrow> 0 < float64 x"
proof -
  assume x: "0 < x"
  have "(0::rat) < 2 powi (ilog2 x)" by simp
  then show ?thesis using float64_binade(1) [OF x] by linarith
qed

lemma np_truediv_255_less:
  assumes "0 < n"
  shows "np_truediv n 255 < of_int n"
proof -
  have n: "(0::rat) < of_int n" using assms by simp
  define a where "a = float64 (of_int n)"
  have a: "0 < a" "a \<le> of_int n * (1 + 1 / 2 ^ 53)"
    unfolding a_def using float64_pos [OF n] float64_upper [OF n] by simp_all
  have q: "0 < a / 255" using a(1) by simp
  have "float64 (a / 255) \<le> a / 255 * (1 + 1 / 2 ^ 53)" by (rule float64_upper [OF q])
  also have "\<dots> \<le> of_int n * (1 + 1 / 2 ^ 53) / 255 * (1 + 1 / 2 ^ 53)"
    using a(2) by (simp add: divide_right_mono mult_right_mono)
  also have "\<dots> = of_int n * ((1 + 1 / 2 ^ 53) / 255 * (1 + 1 / 2 ^ 53))" by simp
  also have "\<dots> < of_int n * 1"
    by (rule mult_strict_left_mono [OF _ n]) simp
  finally show ?thesis by (simp add: np_truediv_def a_def)
qed

lemma pixel_count_below_count:
  assumes "0 < count_list (elems (fst (segment_hsv c img h_min h_max s_min s_max v_min v_max))) 255"
  shows "snd (snd (segment_hsv c img h_min h_max s_min s_max v_min v_max))
    < of_nat (count_list (elems (fst (segment_hsv c img h_min h_max s_min s_max v_min v_max))) 255)"
proof -
  define n where "n = length (filter (\<lambda>p. in_bounds (h_min, s_min, v_min) (h_max, s_max, v_max) (c p))
       (elems img))"
  have "0 < int n" using assms unfolding count_255_mask n_def by simp
  then have "np_truediv (int n) 255 < of_int (int n)" by (rule np_truediv_255_less)
  then show ?thesis
    unfolding segment_hsv_pixel_count mask_positive_count count_255_mask n_def by simp
qed

lemma claimed_scenario:
  assumes "map c [p0, p1, p2, p3] = [(60, 200, 200), (10, 200, 200), (60, 10, 200), (60, 200, 10)]"
  shows "segment_hsv c \<lparr>shape0 = 2, shape1 = 2, elems = [p0, p1, p2, p3]\<rparr> 30 85 50 255 50 255 =
     (\<lparr>shape0 = 2, shape1 = 2, elems = [255, 0, 0, 0]\<rparr>,
      \<lparr>shape0 = 2, shape1 = 2, elems = [p0, (0, 0, 0), (0, 0, 0), (0, 0, 0)]\<rparr>,
      282578800148737 / 2 ^ 56)"
proof -
  have c: "c p0 = (60, 200, 200)" "c p1 = (10, 200, 200)" "c p2 = (60, 10, 200)"
    "c p3 = (60, 200, 10)"
    using assms by simp_all
  have a: "and_pixel p0 p0 = p0" by (cases p0) simp
  show ?thesis
    by (simp add: segment_hsv_def Let_def cv2_cvtColor_def cv2_inRange_def cv2_bitwise_and_def
        np_sum_def np_greater_def np_truediv_def c a float64_one_255)
qed

text \<open>
  Claim C1. The claim does not hold of the code: \<open>pixel_count\<close> is the number of selected
  pixels divided by 255. On an image of one green pixel the mask is [255], one element
  equals 255, and \<open>segment_hsv\<close> returns the double nearest to 1 / 255; the page then
  shows the count \<open>int(pixel_count) = 0\<close> and a percentage of about 0.39 where every
  pixel is selected.
\<close>

theorem pixel_count_is_count_over_255:
  "segment_hsv cv_COLOR_BGR2HSV green_pixel_image 30 85 50 255 50 255 =
     (\<lparr>shape0 = 1, shape1 = 1, elems = [255]\<rparr>,
      \<lparr>shape0 = 1, shape1 = 1, elems = [(0, 255, 0)]\<rparr>,
      282578800148737 / 2 ^ 56)
   \<and> count_list
         (elems (fst (segment_hsv cv_COLOR_BGR2HSV green_pixel_image 30 85 50 255 50 255))) 255 = 1
   \<and> main_app st_returns read_bytes (decode_as green_pixel_image) black_area cv_COLOR_BGR2HSV
         (Some [1, 2, 3]) (30, 85, 50, 255, 50, 255) [] =
       (Inr (),
        [St_success ''Citra berhasil dimuat. Lanjutkan ke langkah 2 untuk mengontrol segmentasi.'',
         St_image_color \<lparr>shape0 = 1, shape1 = 1, elems = [(0, 255, 0)]\<rparr>,
         St_image_color \<lparr>shape0 = 1, shape1 = 1, elems = [(0, 255, 0)]\<rparr>,
         St_metric_count 0,
         St_metric_percentage (Some (7064470003718425 / 2 ^ 54)) 1,
         St_image_mask \<lparr>shape0 = 1, shape1 = 1, elems = [255]\<rparr>,
         St_info_range 30 85 50 255 50 255])"
proof -
  have l: "load_color_image st_returns read_bytes (decode_as green_pixel_image) black_area (Some [1, 2, 3]) []
      = (Inr (Some green_pixel_image), [])"
    by (rule load_small [of read_bytes _ "[1, 2, 3]"])
      (simp_all add: read_bytes_def decode_as_def green_pixel_image_def)
  have tp: "shape0 green_pixel_image * shape1 green_pixel_image = 1"
    by (simp add: green_pixel_image_def)
  have rgb: "cv2_cvtColor COLOR_BGR2RGB green_pixel_image =
      \<lparr>shape0 = 1, shape1 = 1, elems = [(0, 255, 0)]\<rparr>"
    "cv2_cvtColor COLOR_BGR2RGB \<lparr>shape0 = 1, shape1 = 1, elems = [(0, 255, 0)]\<rparr> =
      \<lparr>shape0 = 1, shape1 = 1, elems = [(0, 255, 0)]\<rparr>"
    by (simp_all add: cv2_cvtColor_def green_pixel_image_def)
  have "main_app st_returns read_bytes (decode_as green_pixel_image) black_area cv_COLOR_BGR2HSV
         (Some [1, 2, 3]) (30, 85, 50, 255, 50, 255) [] =
       (Inr (),
        [] @ [St_success ''Citra berhasil dimuat. Lanjutkan ke langkah 2 untuk mengontrol segmentasi.'',
         St_image_color \<lparr>shape0 = 1, shape1 = 1, elems = [(0, 255, 0)]\<rparr>,
         St_image_color \<lparr>shape0 = 1, shape1 = 1, elems = [(0, 255, 0)]\<rparr>,
         St_metric_count 0,
         St_metric_percentage (Some (7064470003718425 / 2 ^ 54)) 1,
         St_image_mask \<lparr>shape0 = 1, shape1 = 1, elems = [255]\<rparr>,
         St_info_range 30 85 50 255 50 255])"
    using main_app_loaded [OF l, of cv_COLOR_BGR2HSV 30 85 50 255 50 255]
    unfolding st_calls_returns segment_green_pixel fst_conv snd_conv tp of_nat_1 py_int_pixel_count
      percentage_one_pixel rgb .
  then show ?thesis
    by (simp add: segment_green_pixel)
qed

text \<open>
  Claim C3. The claim does not hold of the code. On a 2 by 2 image whose pixels OpenCV
  converts to (60, 200, 200), (10, 200, 200), (60, 10, 200) and (60, 204, 10), with the
  range 30..85, 50..255, 50..255, the mask is [255, 0, 0, 0] as claimed, but
  \<open>pixel_count\<close> is the double nearest to 1 / 255, the page shows the count 0, and the
  percentage is about 0.098 instead of 25.
\<close>

theorem four_pixel_scenario_reports_a_255th:
  "map cv_COLOR_BGR2HSV (elems four_pixel_image) =
     [(60, 200, 200), (10, 200, 200), (60, 10, 200), (60, 204, 10)]
   \<and> segment_hsv cv_COLOR_BGR2HSV four_pixel_image 30 85 50 255 50 255 =
     (\<lparr>shape0 = 2, shape1 = 2, elems = [255, 0, 0, 0]\<rparr>,
      \<lparr>shape0 = 2, shape1 = 2, elems = [(43, 200, 43), (0, 0, 0), (0, 0, 0), (0, 0, 0)]\<rparr>,
      282578800148737 / 2 ^ 56)
   \<and> main_app st_returns read_bytes (decode_as four_pixel_image) black_area cv_COLOR_BGR2HSV
         (Some [1, 2, 3]) (30, 85, 50, 255, 50, 255) [] =
       (Inr (),
        [St_success ''Citra berhasil dimuat. Lanjutkan ke langkah 2 untuk mengontrol segmentasi.'',
         St_image_color \<lparr>shape0 = 2, shape1 = 2,
           elems = [(43, 200, 43), (200, 95, 43), (192, 200, 192), (2, 10, 2)]\<rparr>,
         St_image_color \<lparr>shape0 = 2, shape1 = 2,
           elems = [(43, 200, 43), (0, 0, 0), (0, 0, 0), (0, 0, 0)]\<rparr>,
         St_metric_count 0,
         St_metric_percentage (Some (7064470003718425 / 2 ^ 56)) 4,
         St_image_mask \<lparr>shape0 = 2, shape1 = 2, elems = [255, 0, 0, 0]\<rparr>,
         St_info_range 30 85 50 255 50 255])"
proof -
  have l: "load_color_image st_returns read_bytes (decode_as four_pixel_image) black_area (Some [1, 2, 3]) []
      = (Inr (Some four_pixel_image), [])"
    by (rule load_small [of read_bytes _ "[1, 2, 3]"])
      (simp_all add: read_bytes_def decode_as_def four_pixel_image_def)
  have tp: "shape0 four_pixel_image * shape1 four_pixel_image = 4"
    by (simp add: four_pixel_image_def)
  have rgb: "cv2_cvtColor COLOR_BGR2RGB four_pixel_image =
      \<lparr>shape0 = 2, shape1 = 2,
           elems = [(43, 200, 43), (200, 95, 43), (192, 200, 192), (2, 10, 2)]\<rparr>"
    "cv2_cvtColor COLOR_BGR2RGB
       \<lparr>shape0 = 2, shape1 = 2, elems = [(43, 200, 43), (0, 0, 0), (0, 0, 0), (0, 0, 0)]\<rparr> =
      \<lparr>shape0 = 2, shape1 = 2, elems = [(43, 200, 43), (0, 0, 0), (0, 0, 0), (0, 0, 0)]\<rparr>"
    by (simp_all add: cv2_cvtColor_def four_pixel_image_def)
  have "main_app st_returns read_bytes (decode_as four_pixel_image) black_area cv_COLOR_BGR2HSV
         (Some [1, 2, 3]) (30, 85, 50, 255, 50, 255) [] =
       (Inr (),
        [] @ [St_success ''Citra berhasil dimuat. Lanjutkan ke langkah 2 untuk mengontrol segmentasi.'',
         St_image_color \<lparr>shape0 = 2, shape1 = 2,
           elems = [(43, 200, 43), (200, 95, 43), (192, 200, 192), (2, 10, 2)]\<rparr>,
         St_image_color \<lparr>shape0 = 2, shape1 = 2,
           elems = [(43, 200, 43), (0, 0, 0), (0, 0, 0), (0, 0, 0)]\<rparr>,
         St_metric_count 0,
         St_metric_percentage (Some (7064470003718425 / 2 ^ 56)) 4,
         St_image_mask \<lparr>shape0 = 2, shape1 = 2, elems = [255, 0, 0, 0]\<rparr>,
         St_info_range 30 85 50 255 50 255])"
    using main_app_loaded [OF l, of cv_COLOR_BGR2HSV 30 85 50 255 50 255]
    unfolding st_calls_returns segment_four_pixel fst_conv snd_conv tp of_nat_numeral py_int_pixel_count
      percentage_four_pixel rgb .
  moreover have "map cv_COLOR_BGR2HSV (elems four_pixel_image) =
     [(60, 200, 200), (10, 200, 200), (60, 10, 200), (60, 204, 10)]"
    by (simp add: four_pixel_image_def bgr2hsv_examples)
  ultimately show ?thesis
    by (simp add: segment_four_pixel)
qed

section \<open>The requested size\<close>

lemma new_dim_close:
  fixes c mx :: int
  assumes c: "0 < c" and cm: "c \<le> mx" and mx: "800 < mx"
  shows "\<bar>py_int_mul_float c (float64 (800 / of_int mx)) - 800 * of_int c / of_int mx\<bar>
           \<le> 1 / 2 ^ 40"
    and "0 < py_int_mul_float c (float64 (800 / of_int mx))"
proof -
  define u :: rat where "u = 1 / 2 ^ 53"
  define C :: rat where "C = of_int c"
  define S :: rat where "S = 800 / of_int mx"
  define a where "a = float64 C"
  define s where "s = float64 S"
  define p where "p = float64 (a * s)"
  have u: "0 < u" "u < 1" by (simp_all add: u_def)
  have C: "0 < C" using c by (simp add: C_def)
  have M: "(0::rat) < of_int mx" using mx by simp
  have S: "0 < S" using M by (simp add: S_def)
  have CS: "C * S \<le> 800"
  proof -
    have "C \<le> of_int mx" using cm by (simp add: C_def)
    then have "C * S \<le> of_int mx * S" using S by (simp add: mult_right_mono)
    also have "\<dots> = 800" using M by (simp add: S_def)
    finally show ?thesis .
  qed
  have a: "0 < a" "C * (1 - u) \<le> a" "a \<le> C * (1 + u)"
    unfolding a_def u_def using float64_pos [OF C] float64_lower [OF C] float64_upper [OF C]
    by simp_all
  have s: "0 < s" "S * (1 - u) \<le> s" "s \<le> S * (1 + u)"
    unfolding s_def u_def using float64_pos [OF S] float64_lower [OF S] float64_upper [OF S]
    by simp_all
  have as: "0 < a * s" using a(1) s(1) by simp
  have lo: "C * (1 - u) * (S * (1 - u)) \<le> a * s"
    using a(2) s(2) a(1) C S u by (intro mult_mono) simp_all
  have hi: "a * s \<le> C * (1 + u) * (S * (1 + u))"
    using a(3) s(3) a(1) s(1) C S u by (intro mult_mono) simp_all
  have p: "0 < p" "a * s * (1 - u) \<le> p" "p \<le> a * s * (1 + u)"
    unfolding p_def u_def using float64_pos [OF as] float64_lower [OF as] float64_upper [OF as]
    by simp_all
  have "p \<le> C * (1 + u) * (S * (1 + u)) * (1 + u)"
    using p(3) hi u by (meson mult_right_mono order_trans less_imp_le add_nonneg_nonneg zero_le_one)
  also have "\<dots> = C * S * ((1 + u) ^ 3)" by (simp add: power3_eq_cube)
  finally have up: "p \<le> C * S * ((1 + u) ^ 3)" .
  have "C * S * ((1 - u) ^ 3) = C * (1 - u) * (S * (1 - u)) * (1 - u)"
    by (simp add: power3_eq_cube)
  also have "\<dots> \<le> a * s * (1 - u)"
    using lo u by (intro mult_right_mono) simp_all
  also have "\<dots> \<le> p" by (rule p(2))
  finally have dn: "C * S * ((1 - u) ^ 3) \<le> p" .
  have k1: "(1 + u) ^ 3 - 1 \<le> 1 / (800 * 2 ^ 40)" by (simp add: u_def power3_eq_cube)
  have k2: "1 - (1 - u) ^ 3 \<le> 1 / (800 * 2 ^ 40)" by (simp add: u_def power3_eq_cube)
  have k3: "0 \<le> (1 + u) ^ 3 - 1" "0 \<le> 1 - (1 - u) ^ 3"
    by (simp_all add: u_def power3_eq_cube)
  have CS0: "0 \<le> C * S" using C S by simp
  have "C * S * ((1 + u) ^ 3 - 1) \<le> 800 * (1 / (800 * 2 ^ 40))"
    using CS k1 k3(1) CS0 by (intro mult_mono) simp_all
  then have e1: "C * S * ((1 + u) ^ 3) - C * S \<le> 1 / 2 ^ 40"
    by (simp add: algebra_simps)
  have "C * S * (1 - (1 - u) ^ 3) \<le> 800 * (1 / (800 * 2 ^ 40))"
    using CS k2 k3(2) CS0 by (intro mult_mono) simp_all
  then have e2: "C * S - C * S * ((1 - u) ^ 3) \<le> 1 / 2 ^ 40"
    by (simp add: algebra_simps)
  have "\<bar>p - C * S\<bar> \<le> 1 / 2 ^ 40" using up dn e1 e2 by linarith
  moreover have "C * S = 800 * of_int c / of_int mx" by (simp add: C_def S_def)
  moreover have "p = py_int_mul_float c (float64 (800 / of_int mx))"
    by (simp add: p_def a_def s_def C_def S_def py_int_mul_float_def)
  ultimately show "\<bar>py_int_mul_float c (float64 (800 / of_int mx)) - 800 * of_int c / of_int mx\<bar>
           \<le> 1 / 2 ^ 40"
    by simp
  show "0 < py_int_mul_float c (float64 (800 / of_int mx))"
    using p(1) by (simp add: p_def a_def s_def C_def S_def py_int_mul_float_def)
qed

lemma new_dim_facts:
  fixes c mx :: int
  assumes c: "0 < c" and cm: "c \<le> mx" and mx: "800 < mx"
  defines "d \<equiv> py_int (py_int_mul_float c (float64 (800 / of_int mx)))"
  shows "0 \<le> d" and "d \<le> 800"
    and "\<bar>of_int d - 800 * of_int c / of_int mx :: rat\<bar> < 1 + 1 / 2 ^ 40"
    and "c = mx \<Longrightarrow> 799 \<le> d"
    and "2 * mx \<le> 800 * c \<Longrightarrow> 0 < d"
proof -
  define p where "p = py_int_mul_float c (float64 (800 / of_int mx))"
  define e :: rat where "e = 800 * of_int c / of_int mx"
  have M: "(0::rat) < of_int mx" using mx by simp
  have p: "0 < p" "\<bar>p - e\<bar> \<le> 1 / 2 ^ 40"
    unfolding p_def e_def using new_dim_close [OF c cm mx] by simp_all
  define T :: rat where "T = 1 / 2 ^ 40"
  have T: "0 < T" "T < 1" by (simp_all add: T_def)
  have pe: "p - e \<le> T" "e - p \<le> T" using p(2) unfolding T_def by linarith+
  have d: "d = \<lfloor>p\<rfloor>" using p(1) by (simp add: d_def p_def py_int_def)
  have fl: "of_int d \<le> p" "p < of_int d + 1" unfolding d by linarith+
  have "of_int c \<le> (of_int mx :: rat)" using cm by simp
  then have "800 * of_int c \<le> 800 * (of_int mx :: rat)" by simp
  then have e800: "e \<le> 800" using M by (simp add: e_def pos_divide_le_eq)
  show "0 \<le> d" using p(1) d by simp
  have "(of_int d :: rat) < 801" using fl(1) pe T e800 by linarith
  then have "d < 801" by (metis of_int_less_iff of_int_numeral)
  then show "d \<le> 800" by simp
  show "\<bar>of_int d - 800 * of_int c / of_int mx :: rat\<bar> < 1 + 1 / 2 ^ 40"
    using fl pe T unfolding e_def T_def by linarith
  show "799 \<le> d" if "c = mx"
  proof -
    have "e = 800" using that M by (simp add: e_def)
    then have "(798::rat) < of_int d" using fl(2) pe T by linarith
    then have "798 < d" by (metis of_int_less_iff of_int_numeral)
    then show ?thesis by simp
  qed
  show "0 < d" if "2 * mx \<le> 800 * c"
  proof -
    have "(of_int (2 * mx) :: rat) \<le> of_int (800 * c)" using that by (simp only: of_int_le_iff)
    then have "2 * (of_int mx :: rat) \<le> 800 * of_int c" by simp
    then have "2 \<le> e" using M by (simp add: e_def pos_le_divide_eq)
    then have "(0::rat) < of_int d" using fl(2) pe T by linarith
    then show ?thesis by simp
  qed
qed

lemma new_dim_zero: "py_int (py_int_mul_float 0 s) = 0"
  by (simp add: py_int_mul_float_def py_int_def)

lemma resized_dims:
  assumes rd: "read f = Inr file_bytes" and dc: "dec file_bytes = Inr (Some img)"
    and big: "800 < max (shape0 img) (shape1 img)"
    and out: "fst (load_color_image st_raises read dec ia (Some f) st) = Inr (Some out)"
  defines "scale \<equiv> float64 (800 / of_int (max (int (shape0 img)) (int (shape1 img))))"
  shows "int (shape1 out) = py_int (py_int_mul_float (int (shape1 img)) scale)"
    and "int (shape0 out) = py_int (py_int_mul_float (int (shape0 img)) scale)"
    and "elems out = ia img (shape1 out) (shape0 out)"
    and "0 < shape0 out" and "0 < shape1 out"
proof -
  define w where "w = py_int (py_int_mul_float (int (shape1 img)) scale)"
  define h where "h = py_int (py_int_mul_float (int (shape0 img)) scale)"
  have b: "800 < shape0 img \<or> 800 < shape1 img" using big by auto
  have l: "load_color_image st_raises read dec ia (Some f) st =
     (case cv2_resize ia img (w, h) of
        Inl e \<Rightarrow>
          (case st_call st_raises
                  (St_error (''Terjadi kesalahan saat memproses citra: '' @ exn_text e)) st of
             (Inl e', st'') \<Rightarrow> (Inl e', st'')
           | (Inr u, st'') \<Rightarrow> (Inr None, st''))
      | Inr img_resized \<Rightarrow> (Inr (Some img_resized), st))"
    using load_large [of read f file_bytes dec img w h st_raises ia st] rd dc b
    by (simp add: w_def h_def scale_def)
  have r: "cv2_resize ia img (w, h) = Inr out"
    using out l
    by (cases "cv2_resize ia img (w, h)") (auto simp: st_call_def split: option.splits)
  then have o: "0 < w" "0 < h"
    "out = \<lparr>shape0 = nat h, shape1 = nat w, elems = ia img (nat w) (nat h)\<rparr>"
    by (auto simp: cv2_resize_def split: if_splits)
  show "int (shape1 out) = py_int (py_int_mul_float (int (shape1 img)) scale)"
    using o by (simp add: w_def)
  show "int (shape0 out) = py_int (py_int_mul_float (int (shape0 img)) scale)"
    using o by (simp add: h_def)
  show "elems out = ia img (shape1 out) (shape0 out)" using o by simp
  show "0 < shape0 out" "0 < shape1 out" using o by simp_all
qed

text \<open>
  Claim C2, amended. An image with at most 800 rows and 800 columns is returned as it is.
  For a larger one the loader computes \<open>scale = 800 / max(rows, cols)\<close> in double
  precision and asks for \<open>int(cols * scale)\<close> columns and \<open>int(rows * scale)\<close> rows,
  truncated and not rounded. An image it returns has exactly these dimensions and the
  contents the resampling gave; its larger dimension is 800 or 799, and each dimension
  differs from the exact \<open>800 * dimension / max(rows, cols)\<close> by less than
  \<open>1 + 1 / 2 ^ 40\<close>. It does return an image when the longer side is at most 400 times
  the shorter one.
\<close>

theorem resize_truncates_within_bound:
  assumes rd: "read f = Inr file_bytes" and dc: "dec file_bytes = Inr (Some img)"
  shows "(shape0 img \<le> 800 \<and> shape1 img \<le> 800 \<longrightarrow>
            load_color_image st_raises read dec ia (Some f) st = (Inr (Some img), st))
     \<and> (800 < max (shape0 img) (shape1 img) \<longrightarrow>
          (\<forall>out. fst (load_color_image st_raises read dec ia (Some f) st) = Inr (Some out) \<longrightarrow>
              int (shape1 out) =
                py_int (py_int_mul_float (int (shape1 img))
                  (float64 (800 / of_int (max (int (shape0 img)) (int (shape1 img))))))
            \<and> int (shape0 out) =
                py_int (py_int_mul_float (int (shape0 img))
                  (float64 (800 / of_int (max (int (shape0 img)) (int (shape1 img))))))
            \<and> elems out = ia img (shape1 out) (shape0 out)
            \<and> (max (shape0 out) (shape1 out) = 800 \<or> max (shape0 out) (shape1 out) = 799)
            \<and> \<bar>of_nat (shape1 out)
                 - 800 * of_nat (shape1 img) / of_nat (max (shape0 img) (shape1 img)) :: rat\<bar>
                < 1 + 1 / 2 ^ 40
            \<and> \<bar>of_nat (shape0 out)
                 - 800 * of_nat (shape0 img) / of_nat (max (shape0 img) (shape1 img)) :: rat\<bar>
                < 1 + 1 / 2 ^ 40)
        \<and> (2 * max (shape0 img) (shape1 img) \<le> 800 * min (shape0 img) (shape1 img) \<longrightarrow>
              (\<exists>out. load_color_image st_raises read dec ia (Some f) st = (Inr (Some out), st))))"
proof (intro conjI impI allI)
  show "load_color_image st_raises read dec ia (Some f) st = (Inr (Some img), st)"
    if "shape0 img \<le> 800 \<and> shape1 img \<le> 800"
    using load_small [of read f file_bytes dec img st_raises ia st] rd dc that by simp
next
  fix out
  assume big: "800 < max (shape0 img) (shape1 img)"
    and out: "fst (load_color_image st_raises read dec ia (Some f) st) = Inr (Some out)"
  define rows where "rows = int (shape0 img)"
  define cols where "cols = int (shape1 img)"
  define mx where "mx = max rows cols"
  define w where "w = py_int (py_int_mul_float cols (float64 (800 / of_int mx)))"
  define h where "h = py_int (py_int_mul_float rows (float64 (800 / of_int mx)))"
  note rdims = resized_dims [OF rd dc big out, folded rows_def cols_def mx_def, folded w_def h_def]
  have mx: "800 < mx" using big by (simp add: mx_def rows_def cols_def)
  have mxn: "mx = int (max (shape0 img) (shape1 img))"
    by (simp add: mx_def rows_def cols_def)
  have wh: "0 < w" "0 < h" using rdims by simp_all
  have cols: "0 < cols"
  proof (rule ccontr)
    assume "\<not> 0 < cols"
    then have "cols = 0" by (simp add: cols_def)
    then show False using wh(1) by (simp add: w_def new_dim_zero)
  qed
  have rows: "0 < rows"
  proof (rule ccontr)
    assume "\<not> 0 < rows"
    then have "rows = 0" by (simp add: rows_def)
    then show False using wh(2) by (simp add: h_def new_dim_zero)
  qed
  have cm: "cols \<le> mx" "rows \<le> mx" by (simp_all add: mx_def)
  note fw = new_dim_facts [OF cols cm(1) mx, folded w_def]
  note fh = new_dim_facts [OF rows cm(2) mx, folded h_def]
  show "int (shape1 out) =
      py_int (py_int_mul_float (int (shape1 img))
        (float64 (800 / of_int (max (int (shape0 img)) (int (shape1 img))))))"
    using rdims(1) by (simp add: w_def cols_def mx_def rows_def)
  show "int (shape0 out) =
      py_int (py_int_mul_float (int (shape0 img))
        (float64 (800 / of_int (max (int (shape0 img)) (int (shape1 img))))))"
    using rdims(2) by (simp add: h_def cols_def mx_def rows_def)
  show "elems out = ia img (shape1 out) (shape0 out)" by (rule rdims(3))
  have "mx = cols \<or> mx = rows" by (auto simp: mx_def)
  then have "799 \<le> w \<or> 799 \<le> h" using fw(4) fh(4) by auto
  then have "max h w = 800 \<or> max h w = 799" using fw(2) fh(2) by auto
  moreover have "int (max (shape0 out) (shape1 out)) = max h w" using rdims(1,2) by simp
  ultimately show "max (shape0 out) (shape1 out) = 800 \<or> max (shape0 out) (shape1 out) = 799"
    by auto
  have cw: "(of_nat (shape1 out) :: rat) = of_int w"
    using rdims(1) by (metis of_int_of_nat_eq)
  have ch: "(of_nat (shape0 out) :: rat) = of_int h"
    using rdims(2) by (metis of_int_of_nat_eq)
  have cc: "(of_nat (shape1 img) :: rat) = of_int cols" "(of_nat (shape0 img) :: rat) = of_int rows"
    by (simp_all add: cols_def rows_def)
  have cx: "(of_nat (max (shape0 img) (shape1 img)) :: rat) = of_int mx"
    unfolding mxn by simp
  show "\<bar>of_nat (shape1 out)
           - 800 * of_nat (shape1 img) / of_nat (max (shape0 img) (shape1 img)) :: rat\<bar>
        < 1 + 1 / 2 ^ 40"
    unfolding cw cc cx by (rule fw(3))
  show "\<bar>of_nat (shape0 out)
           - 800 * of_nat (shape0 img) / of_nat (max (shape0 img) (shape1 img)) :: rat\<bar>
        < 1 + 1 / 2 ^ 40"
    unfolding ch cc cx by (rule fh(3))
next
  assume big: "800 < max (shape0 img) (shape1 img)"
    and ratio: "2 * max (shape0 img) (shape1 img) \<le> 800 * min (shape0 img) (shape1 img)"
  define rows where "rows = int (shape0 img)"
  define cols where "cols = int (shape1 img)"
  define mx where "mx = max rows cols"
  define w where "w = py_int (py_int_mul_float cols (float64 (800 / of_int mx)))"
  define h where "h = py_int (py_int_mul_float rows (float64 (800 / of_int mx)))"
  have mx: "800 < mx" using big by (simp add: mx_def rows_def cols_def)
  have "2 * max (shape0 img) (shape1 img) \<le> 800 * shape1 img"
    "2 * max (shape0 img) (shape1 img) \<le> 800 * shape0 img"
    using ratio by (auto simp: min_def split: if_splits)
  then have "int (2 * max (shape0 img) (shape1 img)) \<le> int (800 * shape1 img)"
    "int (2 * max (shape0 img) (shape1 img)) \<le> int (800 * shape0 img)"
    by (simp_all only: of_nat_le_iff)
  then have r: "2 * mx \<le> 800 * cols" "2 * mx \<le> 800 * rows"
    by (simp_all add: mx_def rows_def cols_def)
  then have pos: "0 < cols" "0 < rows" using mx by simp_all
  have cm: "cols \<le> mx" "rows \<le> mx" by (simp_all add: mx_def)
  have wh: "0 < w" "0 < h"
    using new_dim_facts(5) [OF pos(1) cm(1) mx r(1)] new_dim_facts(5) [OF pos(2) cm(2) mx r(2)]
    by (simp_all add: w_def h_def)
  have b: "800 < shape0 img \<or> 800 < shape1 img" using big by auto
  have "load_color_image st_raises read dec ia (Some f) st =
     (case cv2_resize ia img (w, h) of
        Inl e \<Rightarrow>
          (case st_call st_raises
                  (St_error (''Terjadi kesalahan saat memproses citra: '' @ exn_text e)) st of
             (Inl e', st'') \<Rightarrow> (Inl e', st'')
           | (Inr u, st'') \<Rightarrow> (Inr None, st''))
      | Inr img_resized \<Rightarrow> (Inr (Some img_resized), st))"
    using load_large [of read f file_bytes dec img w h st_raises ia st] rd dc b
    by (simp add: w_def h_def mx_def rows_def cols_def)
  then show "\<exists>out. load_color_image st_raises read dec ia (Some f) st = (Inr (Some out), st)"
    using wh by (simp add: cv2_resize_def)
qed

theorem resize_truncates_within_bound_witness:
  "read_bytes [1, 2, 3] = Inr [1, 2, 3]
   \<and> decode_as green_red_image [1, 2, 3] = Inr (Some green_red_image)
   \<and> shape0 green_red_image \<le> 800 \<and> shape1 green_red_image \<le> 800
   \<and> load_color_image st_returns read_bytes (decode_as green_red_image) black_area (Some [1, 2, 3]) [] =
        (Inr (Some green_red_image), [])
   \<and> decode_as square_image [1, 2, 3] = Inr (Some square_image)
   \<and> 800 < max (shape0 square_image) (shape1 square_image)
   \<and> 2 * max (shape0 square_image) (shape1 square_image)
        \<le> 800 * min (shape0 square_image) (shape1 square_image)
   \<and> fst (load_color_image st_returns read_bytes (decode_as square_image) black_area (Some [1, 2, 3]) []) =
        Inr (Some \<lparr>shape0 = 799, shape1 = 799, elems = replicate (799 * 799) (0, 0, 0)\<rparr>)
   \<and> int (shape1 (\<lparr>shape0 = 799, shape1 = 799, elems = replicate (799 * 799) (0, 0, 0)\<rparr>
          :: pixel ndarray)) =
        py_int (py_int_mul_float (int (shape1 square_image))
          (float64 (800 / of_int (max (int (shape0 square_image)) (int (shape1 square_image))))))"
proof -
  have b: "read_bytes [1, 2, 3] = Inr [1, 2, 3]" by (simp add: read_bytes_def)
  have g: "decode_as green_red_image [1, 2, 3] = Inr (Some green_red_image)"
    and q: "decode_as square_image [1, 2, 3] = Inr (Some square_image)"
    by (simp_all add: decode_as_def)
  have gs: "shape0 green_red_image \<le> 800 \<and> shape1 green_red_image \<le> 800"
    by (simp add: green_red_image_def)
  have qs: "800 < max (shape0 square_image) (shape1 square_image)"
    "2 * max (shape0 square_image) (shape1 square_image)
        \<le> 800 * min (shape0 square_image) (shape1 square_image)"
    by (simp_all add: square_image_def)
  have o: "fst (load_color_image st_returns read_bytes (decode_as square_image) black_area (Some [1, 2, 3]) []) =
        Inr (Some \<lparr>shape0 = 799, shape1 = 799, elems = replicate (799 * 799) (0, 0, 0)\<rparr>)"
    by (simp add: load_square_image)
  note small = resize_truncates_within_bound
        [of read_bytes "[1, 2, 3]" "[1, 2, 3]" "decode_as green_red_image" green_red_image
            st_returns black_area "[]", OF b g, THEN conjunct1, THEN mp, OF gs]
  note large = resize_truncates_within_bound
        [of read_bytes "[1, 2, 3]" "[1, 2, 3]" "decode_as square_image" square_image
            st_returns black_area "[]", OF b q, THEN conjunct2, THEN mp, OF qs(1), THEN conjunct1,
            THEN spec, THEN mp, OF o, THEN conjunct1]
  have gs0: "shape0 green_red_image \<le> 800" and gs1: "shape1 green_red_image \<le> 800"
    using gs by simp_all
  show ?thesis by (intro conjI b g q gs0 gs1 qs o small large)
qed

section \<open>Two calls in a row\<close>

lemma get_color_append:
  "get_color h a = Some x \<Longrightarrow> get_color (h @ xs) a = Some x"
  by (auto simp: get_color_def nth_append split: if_splits)

lemma get_mask_append:
  "get_mask h a = Some x \<Longrightarrow> get_mask (h @ xs) a = Some x"
  by (auto simp: get_mask_def nth_append split: if_splits)

lemma get_color_new: "get_color (h @ [Color_array x]) (length h) = Some x"
  by (simp add: get_color_def)

lemma get_mask_new: "get_mask (h @ [Mask_array x]) (length h) = Some x"
  by (simp add: get_mask_def)

lemma segment_hsv_heap_run:
  assumes "get_color h img_bgr = Some img"
  shows "segment_hsv_heap c h img_bgr h_min h_max s_min s_max v_min v_max =
     Some (h @ [Color_array (cv2_cvtColor c img),
                Mask_array (fst (segment_hsv c img h_min h_max s_min s_max v_min v_max)),
                Color_array (fst (snd (segment_hsv c img h_min h_max s_min s_max v_min v_max)))],
           length h + 1, length h + 2,
           snd (snd (segment_hsv c img h_min h_max s_min s_max v_min v_max)))"
proof -
  define hsv where "hsv = cv2_cvtColor c img"
  define m where "m = cv2_inRange hsv (h_min, s_min, v_min) (h_max, s_max, v_max)"
  define r where "r = cv2_bitwise_and img img m"
  have 1: "heap_cvtColor c h img_bgr = Some (h @ [Color_array hsv], length h)"
    using assms by (simp add: heap_cvtColor_def alloc_def hsv_def)
  have 2: "heap_inRange (h @ [Color_array hsv]) (length h) (h_min, s_min, v_min)
        (h_max, s_max, v_max) =
      Some (h @ [Color_array hsv, Mask_array m], length h + 1)"
    by (simp add: heap_inRange_def alloc_def get_color_new m_def)
  have g: "get_color (h @ [Color_array hsv, Mask_array m]) img_bgr = Some img"
    by (rule get_color_append [OF assms])
  have gm: "get_mask (h @ [Color_array hsv, Mask_array m]) (length h + 1) = Some m"
    by (simp add: get_mask_def nth_append)
  have 3: "heap_bitwise_and (h @ [Color_array hsv, Mask_array m]) img_bgr img_bgr (length h + 1) =
      Some (h @ [Color_array hsv, Mask_array m, Color_array r], length h + 2)"
    unfolding heap_bitwise_and_def g gm by (simp add: alloc_def r_def)
  have 4: "heap_count_positive (h @ [Color_array hsv, Mask_array m, Color_array r]) (length h + 1) =
      Some (np_sum (np_greater m 0))"
    by (simp add: heap_count_positive_def get_mask_def nth_append)
  have "segment_hsv_heap c h img_bgr h_min h_max s_min s_max v_min v_max =
      Some (h @ [Color_array hsv, Mask_array m, Color_array r], length h + 1, length h + 2,
            np_truediv (np_sum (np_greater m 0)) 255)"
    unfolding segment_hsv_heap_def 1 option.case prod.case 2 3 4 ..
  then show ?thesis
    by (simp add: hsv_def m_def r_def segment_hsv_def Let_def)
qed

text \<open>
  Claim C8. Calling \<open>segment_hsv\<close> twice in a row on the same image array and the same
  range succeeds both times; the two masks have the same contents, the two composites
  have the same contents, and the two pixel counts are equal. The first call leaves the
  image array as it was, and its results are not overwritten by the second call.
\<close>

theorem repeated_segmentation_is_identical:
  assumes "get_color h img_bgr = Some img"
  shows "(case segment_hsv_heap c h img_bgr h_min h_max s_min s_max v_min v_max of
            None \<Rightarrow> False
          | Some (h1, mask1, result1, pixel_count1) \<Rightarrow>
              (case segment_hsv_heap c h1 img_bgr h_min h_max s_min s_max v_min v_max of
                 None \<Rightarrow> False
               | Some (h2, mask2, result2, pixel_count2) \<Rightarrow>
                   get_mask h2 mask1 = get_mask h2 mask2
                 \<and> get_mask h2 mask2 =
                     Some (fst (segment_hsv c img h_min h_max s_min s_max v_min v_max))
                 \<and> get_color h2 result1 = get_color h2 result2
                 \<and> get_color h2 result2 =
                     Some (fst (snd (segment_hsv c img h_min h_max s_min s_max v_min v_max)))
                 \<and> pixel_count1 = pixel_count2
                 \<and> pixel_count2 = snd (snd (segment_hsv c img h_min h_max s_min s_max v_min v_max))
                 \<and> get_color h2 img_bgr = Some img
                 \<and> mask1 \<noteq> mask2 \<and> result1 \<noteq> result2))"
proof -
  define hsv where "hsv = Color_array (cv2_cvtColor c img)"
  define m where "m = fst (segment_hsv c img h_min h_max s_min s_max v_min v_max)"
  define r where "r = fst (snd (segment_hsv c img h_min h_max s_min s_max v_min v_max))"
  define h1 where "h1 = h @ [hsv, Mask_array m, Color_array r]"
  define h2 where "h2 = h1 @ [hsv, Mask_array m, Color_array r]"
  have g1: "get_color h1 img_bgr = Some img"
    unfolding h1_def by (rule get_color_append [OF assms])
  have g2: "get_color h2 img_bgr = Some img"
    unfolding h2_def by (rule get_color_append [OF g1])
  have run1: "segment_hsv_heap c h img_bgr h_min h_max s_min s_max v_min v_max =
      Some (h1, length h + 1, length h + 2,
            snd (snd (segment_hsv c img h_min h_max s_min s_max v_min v_max)))"
    unfolding h1_def hsv_def m_def r_def by (rule segment_hsv_heap_run [OF assms])
  have run2: "segment_hsv_heap c h1 img_bgr h_min h_max s_min s_max v_min v_max =
      Some (h2, length h1 + 1, length h1 + 2,
            snd (snd (segment_hsv c img h_min h_max s_min s_max v_min v_max)))"
    unfolding h2_def hsv_def m_def r_def by (rule segment_hsv_heap_run [OF g1])
  have l: "length h1 = length h + 3" by (simp add: h1_def)
  have look: "get_mask h2 (length h + 1) = Some m" "get_mask h2 (length h1 + 1) = Some m"
    "get_color h2 (length h + 2) = Some r" "get_color h2 (length h1 + 2) = Some r"
    by (simp_all add: h2_def h1_def get_mask_def get_color_def nth_append)
  show ?thesis
    unfolding run1 option.case prod.case run2 look g2
    unfolding m_def r_def l by simp
qed

theorem repeated_segmentation_is_identical_witness:
  "get_color [Color_array green_red_image] 0 = Some green_red_image
   \<and> segment_hsv_heap cv_COLOR_BGR2HSV [Color_array green_red_image] 0 30 85 50 255 50 255 \<noteq> None
   \<and> map_option (\<lambda>(h1, mask1, result1, pixel_count1). (mask1, result1))
        (segment_hsv_heap cv_COLOR_BGR2HSV [Color_array green_red_image] 0 30 85 50 255 50 255)
        = Some (2, 3)"
proof -
  have g: "get_color [Color_array green_red_image] 0 = Some green_red_image"
    by (simp add: get_color_def)
  have "segment_hsv_heap cv_COLOR_BGR2HSV [Color_array green_red_image] 0 30 85 50 255 50 255
      \<noteq> None"
    using repeated_segmentation_is_identical
        [OF g, of cv_COLOR_BGR2HSV 30 85 50 255 50 255]
    by (auto split: option.splits)
  moreover have "map_option (\<lambda>(h1, mask1, result1, pixel_count1). (mask1, result1))
        (segment_hsv_heap cv_COLOR_BGR2HSV [Color_array green_red_image] 0 30 85 50 255 50 255)
        = Some (2, 3)"
    by (simp add: segment_hsv_heap_run [OF g])
  ultimately show ?thesis using g by blast
qed

end
